theory Spec2Isabelle
  imports Main "HOL-Library.Char_ord" "HOL-Library.List_Lexorder"
begin

section \<open>Python values used by the MeViS loader\<close>

text \<open>
  The exceptions the modelled code can raise. \<open>ValueError\<close> carries the message where
  the source builds one.
\<close>

datatype py_error =
    IndexError
  | KeyError
  | ValueError string
  | FileNotFoundError
  | UnboundLocalError
  | RuntimeError

text \<open>
  Subscripting a list, \<open>xs[i]\<close>. Positions \<open>0 .. len-1\<close> are read directly, positions
  \<open>-len .. -1\<close> from the end, and every other position raises.
\<close>

definition py_get :: "'a list \<Rightarrow> int \<Rightarrow> py_error + 'a" where
  "py_get xs i =
     (if 0 \<le> i \<and> i < int (length xs) then Inr (xs ! nat i)
      else if i < 0 \<and> - int (length xs) \<le> i then Inr (xs ! nat (int (length xs) + i))
      else Inl IndexError)"

text \<open>
  \<open>range(0, stop, step)\<close> for \<open>stop \<ge> 0\<close>: the loop that produces its elements, and
  the three cases of the step (zero raises, a negative step gives the empty range).
\<close>

function py_range_from :: "nat \<Rightarrow> nat \<Rightarrow> nat \<Rightarrow> nat list" where
  "py_range_from i stop step =
     (if step = 0 \<or> stop \<le> i then [] else i # py_range_from (i + step) stop step)"
  by pat_completeness auto
termination
  by (relation "measure (\<lambda>(i, stop, step). stop - i)") auto

declare py_range_from.simps [simp del]

definition py_range :: "nat \<Rightarrow> int \<Rightarrow> py_error + nat list" where
  "py_range stop step =
     (if step = 0 then Inl (ValueError ''range() arg 3 must not be zero'')
      else if step < 0 then Inr []
      else Inr (py_range_from 0 stop (nat step)))"

section \<open>The annotation manifest and the catalog (\<open>prepare_metas\<close>)\<close>

text \<open>
  The manifest is the JSON object under the key \<open>videos\<close>: a dictionary from video id to
  the frame names and the expressions of the video. A dictionary is kept as the list of its
  items in iteration order; \<open>obj_id\<close> holds integers and \<open>anno_id\<close> strings, so that the
  conversions \<open>int(x)\<close> and \<open>str(x)\<close> of the source leave them unchanged.
\<close>

record expression =
  exp_exp :: string
  exp_obj_id :: "int list"
  exp_anno_id :: "string list"

record vid_data =
  vd_frames :: "string list"
  vd_expressions :: "(string \<times> expression) list"

type_synonym manifest = "(string \<times> vid_data) list"

record meta =
  meta_video :: string
  meta_exp :: string
  meta_obj_id :: "int list"
  meta_anno_id :: "string list"
  meta_frames :: "string list"
  meta_frame_id :: int
  meta_category :: int

definition make_meta :: "string \<Rightarrow> expression \<Rightarrow> string list \<Rightarrow> nat \<Rightarrow> meta" where
  "make_meta vid exp_dict vid_frames frame_id =
     \<lparr> meta_video = vid,
       meta_exp = exp_exp exp_dict,
       meta_obj_id = exp_obj_id exp_dict,
       meta_anno_id = exp_anno_id exp_dict,
       meta_frames = vid_frames,
       meta_frame_id = int frame_id,
       meta_category = 0 \<rparr>"

text \<open>The innermost loop: one \<open>append\<close> to \<open>self.metas\<close> per anchor.\<close>

fun anchors_loop :: "string \<Rightarrow> expression \<Rightarrow> string list \<Rightarrow> nat list \<Rightarrow> meta list \<Rightarrow> meta list" where
  "anchors_loop vid exp_dict vid_frames [] metas = metas"
| "anchors_loop vid exp_dict vid_frames (frame_id # rest) metas =
     anchors_loop vid exp_dict vid_frames rest
       (metas @ [make_meta vid exp_dict vid_frames frame_id])"

text \<open>The loop over the expressions of one video; \<open>range\<close> is evaluated once per expression.\<close>

fun expressions_loop ::
  "int \<Rightarrow> string \<Rightarrow> string list \<Rightarrow> (string \<times> expression) list \<Rightarrow> meta list \<Rightarrow> py_error + meta list" where
  "expressions_loop num_frames vid vid_frames [] metas = Inr metas"
| "expressions_loop num_frames vid vid_frames ((exp_id, exp_dict) # rest) metas =
     (case py_range (length vid_frames) num_frames of
        Inl e \<Rightarrow> Inl e
      | Inr anchors \<Rightarrow>
          expressions_loop num_frames vid vid_frames rest
            (anchors_loop vid exp_dict vid_frames anchors metas))"

text \<open>The loop over the videos; the frame names are sorted before use.\<close>

fun videos_loop :: "int \<Rightarrow> manifest \<Rightarrow> meta list \<Rightarrow> py_error + meta list" where
  "videos_loop num_frames [] metas = Inr metas"
| "videos_loop num_frames ((vid, data) # rest) metas =
     (case expressions_loop num_frames vid (sort (vd_frames data)) (vd_expressions data) metas of
        Inl e \<Rightarrow> Inl e
      | Inr metas' \<Rightarrow> videos_loop num_frames rest metas')"

definition prepare_metas :: "int \<Rightarrow> manifest \<Rightarrow> py_error + meta list" where
  "prepare_metas num_frames subset_expressions_by_video =
     videos_loop num_frames subset_expressions_by_video []"

section \<open>Dense arrays\<close>

text \<open>
  A 2-D array is the list of its rows. The accumulator of the loader has dtype float32 and
  only ever holds sums of decoded 0/1 entries, which are exact, so its entries are kept as
  natural numbers. An array with no row has shape \<open>(0, 0)\<close> here.
\<close>

type_synonym ndarray = "nat list list"

definition nrows :: "ndarray \<Rightarrow> nat" where
  "nrows a = length a"

definition ncols :: "ndarray \<Rightarrow> nat" where
  "ncols a = (case a of [] \<Rightarrow> 0 | r # _ \<Rightarrow> length r)"

definition has_shape :: "nat \<Rightarrow> nat \<Rightarrow> ndarray \<Rightarrow> bool" where
  "has_shape h w a \<longleftrightarrow> length a = h \<and> list_all (\<lambda>r. length r = w) a"

definition np_zeros :: "nat \<Rightarrow> nat \<Rightarrow> ndarray" where
  "np_zeros h w = replicate h (replicate w 0)"

text \<open>
  The in-place addition \<open>mask += d\<close>: \<open>d\<close> is broadcast to the shape of \<open>mask\<close> (an axis of
  length one is repeated), and any other shape raises.
\<close>

definition np_iadd :: "ndarray \<Rightarrow> ndarray \<Rightarrow> py_error + ndarray" where
  "np_iadd a d =
     (let h = nrows a; w = ncols a; h' = nrows d; w' = ncols d
      in if (h' = h \<or> h' = 1) \<and> (w' = w \<or> w' = 1)
         then Inr (map (\<lambda>r. map (\<lambda>c. a ! r ! c
                        + d ! (if h' = h then r else 0) ! (if w' = w then c else 0)) [0..<w]) [0..<h])
         else Inl (ValueError ''operands could not be broadcast together''))"

text \<open>\<open>(mask > 0).any()\<close>\<close>

definition any_positive :: "ndarray \<Rightarrow> bool" where
  "any_positive a = list_ex (list_ex (\<lambda>v. 0 < v)) a"

text \<open>\<open>np.any(img, axis=1)\<close>, \<open>np.any(img, axis=0)\<close> and \<open>np.where(bs)[0]\<close>\<close>

definition np_any_axis1 :: "ndarray \<Rightarrow> bool list" where
  "np_any_axis1 img = map (list_ex (\<lambda>v. v \<noteq> 0)) img"

definition np_any_axis0 :: "ndarray \<Rightarrow> bool list" where
  "np_any_axis0 img = map (\<lambda>c. list_ex (\<lambda>r. r ! c \<noteq> 0) img) [0..<ncols img]"

definition np_where :: "bool list \<Rightarrow> nat list" where
  "np_where bs = filter (\<lambda>i. bs ! i) [0..<length bs]"

text \<open>\<open>xs[[0, -1]]\<close>: the first and the last element; an empty \<open>xs\<close> raises.\<close>

definition first_last :: "nat list \<Rightarrow> py_error + (nat \<times> nat)" where
  "first_last xs = (case xs of [] \<Rightarrow> Inl IndexError | x # _ \<Rightarrow> Inr (x, last xs))"

definition bounding_box :: "ndarray \<Rightarrow> py_error + (nat \<times> nat \<times> nat \<times> nat)" where
  "bounding_box img =
     (let rows = np_any_axis1 img; cols = np_any_axis0 img
      in case first_last (np_where rows) of
           Inl e \<Rightarrow> Inl e
         | Inr (rmin, rmax) \<Rightarrow>
             (case first_last (np_where cols) of
                Inl e \<Rightarrow> Inl e
              | Inr (cmin, cmax) \<Rightarrow> Inr (rmin, rmax, cmin, cmax)))"

text \<open>\<open>torch.stack(xs, dim=0)\<close>: the list must not be empty and all shapes must agree.\<close>

definition torch_stack :: "('a \<Rightarrow> 's) \<Rightarrow> 'a list \<Rightarrow> py_error + 'a list" where
  "torch_stack shp xs =
     (case xs of
        [] \<Rightarrow> Inl RuntimeError
      | x # rest \<Rightarrow> if list_all (\<lambda>y. shp y = shp x) rest then Inr xs else Inl RuntimeError)"

definition mask_shape :: "ndarray \<Rightarrow> nat \<times> nat" where
  "mask_shape a = (nrows a, ncols a)"

text \<open>\<open>clamp_(min=lo, max=hi)\<close> on one entry, and on the columns \<open>0::2\<close> and \<open>1::2\<close> of a box.\<close>

type_synonym box = "int \<times> int \<times> int \<times> int"

definition clamp :: "int \<Rightarrow> int \<Rightarrow> int \<Rightarrow> int" where
  "clamp lo hi v = min (max v lo) hi"

definition clamp_box :: "nat \<Rightarrow> nat \<Rightarrow> box \<Rightarrow> box" where
  "clamp_box w h b =
     (case b of (x1, y1, x2, y2) \<Rightarrow>
        (clamp 0 (int w) x1, clamp 0 (int h) y1, clamp 0 (int w) x2, clamp 0 (int h) y2))"

section \<open>Caption clean-up\<close>

text \<open>
  A \<open>str\<close> is kept as the list of its UTF-8 bytes. \<open>" ".join(ws)\<close> puts one blank
  between the words. The two other steps of the clean-up, \<open>str.lower\<close> and \<open>str.split\<close>,
  follow the Unicode tables of the interpreter; they are taken as given, as two fields of
  the dataset below.
\<close>

definition join_space :: "string list \<Rightarrow> string" where
  "join_space ws = (case ws of [] \<Rightarrow> [] | w # rest \<Rightarrow> foldl (\<lambda>a b. a @ '' '' @ b) w rest)"

section \<open>The random source\<close>

text \<open>
  The state of the global generator is the sequence of its future raw draws.
  \<open>random.randint(a, b)\<close> consumes one draw and maps it into the closed range \<open>a .. b\<close>;
  an empty range raises.
\<close>

type_synonym rng = "nat \<Rightarrow> nat"

definition randint :: "int \<Rightarrow> int \<Rightarrow> rng \<Rightarrow> py_error + (int \<times> rng)" where
  "randint a b g =
     (if b < a then Inl (ValueError ''empty range for randrange()'')
      else Inr (a + int (g 0) mod (b - a + 1), \<lambda>n. g (Suc n)))"

section \<open>The sample builder (\<open>MeViSDataset.__getitem__\<close>)\<close>

text \<open>
  A decoded image is kept by its size, \<open>img.size = (width, height)\<close>. The mask store
  maps an annotation id to one entry per frame, \<open>None\<close> where the JSON has \<open>null\<close>.
\<close>

record image =
  im_w :: nat
  im_h :: nat

text \<open>
  The loop over the annotation ids of the task, for one frame:
  \<open>frm_anno = self.mask_dict[x][frame_indx]\<close>, added to the accumulator when not \<open>None\<close>.
\<close>

fun anno_loop ::
  "('rle \<Rightarrow> ndarray) \<Rightarrow> (string \<rightharpoonup> 'rle option list) \<Rightarrow> int \<Rightarrow> string list \<Rightarrow> ndarray
     \<Rightarrow> py_error + ndarray" where
  "anno_loop dec mdict frame_indx [] acc = Inr acc"
| "anno_loop dec mdict frame_indx (x # xs) acc =
     (case mdict x of
        None \<Rightarrow> Inl KeyError
      | Some per_frame \<Rightarrow>
          (case py_get per_frame frame_indx of
             Inl e \<Rightarrow> Inl e
           | Inr None \<Rightarrow> anno_loop dec mdict frame_indx xs acc
           | Inr (Some frm_anno) \<Rightarrow>
               (case np_iadd acc (dec frm_anno) of
                  Inl e \<Rightarrow> Inl e
                | Inr acc' \<Rightarrow> anno_loop dec mdict frame_indx xs acc')))"

text \<open>The box and the validity flag of one frame, from its accumulated mask.\<close>

definition box_and_valid :: "ndarray \<Rightarrow> py_error + (box \<times> int)" where
  "box_and_valid acc =
     (if any_positive acc
      then (case bounding_box acc of
              Inl e \<Rightarrow> Inl e
            | Inr (y1, y2, x1, x2) \<Rightarrow> Inr ((int x1, int y1, int x2, int y2), 1))
      else Inr ((0, 0, 0, 0), 0))"

text \<open>
  One iteration of \<open>for j in range(self.num_frames)\<close>: the image, label, box, mask and
  validity flag appended for position \<open>j\<close>. The image file is found from the video and the
  frame name, the image folder being fixed.
\<close>

definition frame_step ::
  "(string \<Rightarrow> string \<Rightarrow> py_error + image) \<Rightarrow> ('rle \<Rightarrow> ndarray) \<Rightarrow> (string \<rightharpoonup> 'rle option list)
     \<Rightarrow> string \<Rightarrow> string list \<Rightarrow> string list \<Rightarrow> int list \<Rightarrow> nat
     \<Rightarrow> py_error + (image \<times> int \<times> box \<times> ndarray \<times> int)" where
  "frame_step image_open dec mdict video frames anno_id sample_indx j =
     (case py_get sample_indx (int j) of
        Inl e \<Rightarrow> Inl e
      | Inr frame_indx \<Rightarrow>
          (case py_get frames frame_indx of
             Inl e \<Rightarrow> Inl e
           | Inr frame_name \<Rightarrow>
               (case image_open video frame_name of
                  Inl e \<Rightarrow> Inl e
                | Inr img \<Rightarrow>
                    (case anno_loop dec mdict frame_indx anno_id (np_zeros (im_h img) (im_w img)) of
                       Inl e \<Rightarrow> Inl e
                     | Inr acc \<Rightarrow>
                         (case box_and_valid acc of
                            Inl e \<Rightarrow> Inl e
                          | Inr (bx, v) \<Rightarrow> Inr (img, 0, bx, acc, v))))))"

text \<open>The loop itself, appending to the five lists.\<close>

fun frames_loop ::
  "(nat \<Rightarrow> py_error + (image \<times> int \<times> box \<times> ndarray \<times> int)) \<Rightarrow> nat list
     \<Rightarrow> image list \<times> int list \<times> box list \<times> ndarray list \<times> int list
     \<Rightarrow> py_error + (image list \<times> int list \<times> box list \<times> ndarray list \<times> int list)" where
  "frames_loop step [] st = Inr st"
| "frames_loop step (j # js) (is, ls, bs, ms, vs) =
     (case step j of
        Inl e \<Rightarrow> Inl e
      | Inr (img, label, bx, msk, v) \<Rightarrow>
          frames_loop step js (is @ [img], ls @ [label], bs @ [bx], ms @ [msk], vs @ [v]))"

record target =
  frames_idx :: "int list"
  labels :: "int list"
  boxes :: "box list"
  masks :: "ndarray list"
  valid :: "int list"
  caption :: string
  orig_size :: "int \<times> int"
  size_hw :: "int \<times> int"
  video_id :: string
  exp_id :: int

text \<open>
  What the loader is built from: the collaborators that are not part of the loader
  (the frame sampler, the image files, the RLE decoder, the augmentation pipeline, which
  may all draw from the random source or raise, and the two string methods of the
  clean-up) and the fields of the dataset object.
\<close>

record ('rle, 'ti) dataset =
  sample_global_frames :: "rng \<Rightarrow> int \<Rightarrow> int \<Rightarrow> int \<Rightarrow> py_error + (int list \<times> rng)"
  image_open :: "string \<Rightarrow> string \<Rightarrow> py_error + image"
  coco_decode :: "'rle \<Rightarrow> ndarray"
  transforms :: "rng \<Rightarrow> image list \<Rightarrow> target \<Rightarrow> py_error + (('ti list \<times> target) \<times> rng)"
  tensor_shape :: "'ti \<Rightarrow> nat list"
  str_lower :: "string \<Rightarrow> string"
  str_split :: "string \<Rightarrow> string list"
  metas :: "meta list"
  mask_dict :: "string \<rightharpoonup> 'rle option list"
  num_frames :: int

text \<open>\<open>exp = " ".join(exp.lower().split())\<close>\<close>

definition clean_caption :: "('rle, 'ti) dataset \<Rightarrow> string \<Rightarrow> string" where
  "clean_caption D e = join_space (str_split D (str_lower D e))"

text \<open>
  The statements after the loop over the positions: \<open>w, h = img.size\<close> reads the image of
  the last position (with no position the name \<open>img\<close> is unbound), the boxes are clamped,
  the masks are stacked and the target record is built; \<open>exp\<close> is the cleaned caption.
\<close>

definition make_target ::
  "meta \<Rightarrow> string \<Rightarrow> int \<Rightarrow> int list
     \<Rightarrow> image list \<times> int list \<times> box list \<times> ndarray list \<times> int list
     \<Rightarrow> py_error + (image list \<times> target)" where
  "make_target m exp idx sample_indx st =
     (case st of (imgs, ls, bs, ms, vs) \<Rightarrow>
        if imgs = [] then Inl UnboundLocalError
        else
          (let w = im_w (last imgs); h = im_h (last imgs)
           in case torch_stack mask_shape ms of
                Inl e \<Rightarrow> Inl e
              | Inr ms' \<Rightarrow>
                  Inr (imgs,
                    \<lparr> frames_idx = sample_indx,
                      labels = ls,
                      boxes = map (clamp_box w h) bs,
                      masks = ms',
                      valid = vs,
                      caption = exp,
                      orig_size = (int h, int w),
                      size_hw = (int h, int w),
                      video_id = meta_video m,
                      exp_id = idx \<rparr>)))"

text \<open>
  The body of the \<open>while\<close> loop up to the target record, before the augmentation: the
  catalog entry, the sampled frame indices, the loop over the positions, the target.
\<close>

definition assemble ::
  "('rle, 'ti) dataset \<Rightarrow> rng \<Rightarrow> int \<Rightarrow> py_error + ((image list \<times> target) \<times> rng)" where
  "assemble D g idx =
     (case py_get (metas D) idx of
        Inl e \<Rightarrow> Inl e
      | Inr m \<Rightarrow>
          (case sample_global_frames D g (meta_frame_id m) (int (length (meta_frames m)))
                  (num_frames D) of
             Inl e \<Rightarrow> Inl e
           | Inr (sample_indx, g') \<Rightarrow>
               (case frames_loop
                       (frame_step (image_open D) (coco_decode D) (mask_dict D) (meta_video m)
                          (meta_frames m) (meta_anno_id m) sample_indx)
                       [0..<nat (num_frames D)] ([], [], [], [], []) of
                  Inl e \<Rightarrow> Inl e
                | Inr st \<Rightarrow>
                    (case make_target m (clean_caption D (meta_exp m)) idx sample_indx st of
                       Inl e \<Rightarrow> Inl e
                     | Inr r \<Rightarrow> Inr (r, g')))))"

text \<open>One full iteration of the \<open>while\<close> loop: assemble, augment, stack the images.\<close>

definition attempt ::
  "('rle, 'ti) dataset \<Rightarrow> rng \<Rightarrow> int \<Rightarrow> py_error + (('ti list \<times> target) \<times> rng)" where
  "attempt D g idx =
     (case assemble D g idx of
        Inl e \<Rightarrow> Inl e
      | Inr ((imgs, tgt), g1) \<Rightarrow>
          (case transforms D g1 imgs tgt of
             Inl e \<Rightarrow> Inl e
           | Inr ((imgs', tgt'), g2) \<Rightarrow>
               (case torch_stack (tensor_shape D) imgs' of
                  Inl e \<Rightarrow> Inl e
                | Inr imgs'' \<Rightarrow> Inr ((imgs'', tgt'), g2))))"

text \<open>\<open>torch.any(target['valid'] == 1)\<close>\<close>

definition any_valid :: "target \<Rightarrow> bool" where
  "any_valid tgt = list_ex (\<lambda>v. v = 1) (valid tgt)"

text \<open>
  \<open>__getitem__\<close>: the loop runs until an attempt has a valid position, drawing a new index
  after each attempt that has none. It has no bound, so the result is optional: \<open>None\<close>
  is the loop that never ends.
\<close>

partial_function (option) getitem ::
  "('rle, 'ti) dataset \<Rightarrow> rng \<Rightarrow> int \<Rightarrow> (py_error + (('ti list \<times> target) \<times> rng)) option" where
  "getitem D g idx =
     (case attempt D g idx of
        Inl e \<Rightarrow> Some (Inl e)
      | Inr ((imgs, tgt), g') \<Rightarrow>
          if any_valid tgt then Some (Inr ((imgs, tgt), g'))
          else (case randint 0 (int (length (metas D)) - 1) g' of
                  Inl e \<Rightarrow> Some (Inl e)
                | Inr (idx', g'') \<Rightarrow> getitem D g'' idx'))"

text \<open>
  One pass of the loop that ends in a redraw: the attempt at the index has no valid
  position, and the next pass starts from the index that \<open>random.randint\<close> draws on
  the generator state the attempt left. \<open>retries n\<close> is \<open>n\<close> such passes in a row; it is
  \<open>None\<close> as soon as a pass returns or raises.
\<close>

definition retry :: "('rle, 'ti) dataset \<Rightarrow> rng \<times> int \<Rightarrow> (rng \<times> int) option" where
  "retry D s =
     (case s of (g, idx) \<Rightarrow>
        (case attempt D g idx of
           Inl e \<Rightarrow> None
         | Inr ((imgs, tgt), g') \<Rightarrow>
             if any_valid tgt then None
             else (case randint 0 (int (length (metas D)) - 1) g' of
                     Inl e \<Rightarrow> None
                   | Inr (idx', g'') \<Rightarrow> Some (g'', idx'))))"

fun retries :: "nat \<Rightarrow> ('rle, 'ti) dataset \<Rightarrow> rng \<times> int \<Rightarrow> (rng \<times> int) option" where
  "retries 0 D s = Some s"
| "retries (Suc n) D s = (case retry D s of None \<Rightarrow> None | Some s' \<Rightarrow> retries n D s')"

section \<open>The dataset facade (\<open>build_dataset\<close>)\<close>

text \<open>The four per-dataset builders are imported from other modules and are parameters.\<close>

definition build_dataset ::
  "(string \<Rightarrow> 'args \<Rightarrow> py_error + 'd) \<Rightarrow> (string \<Rightarrow> 'args \<Rightarrow> py_error + 'd)
     \<Rightarrow> (string \<Rightarrow> 'args \<Rightarrow> py_error + 'd) \<Rightarrow> (string \<Rightarrow> string \<Rightarrow> 'args \<Rightarrow> py_error + 'd)
     \<Rightarrow> string \<Rightarrow> string \<Rightarrow> 'args \<Rightarrow> py_error + 'd" where
  "build_dataset build_mevis build_ytvos build_davis build_refexp dataset_file image_set args =
     (if dataset_file = ''mevis'' then build_mevis image_set args
      else if dataset_file = ''ytvos'' then build_ytvos image_set args
      else if dataset_file = ''davis'' then build_davis image_set args
      else if dataset_file = ''refcoco'' \<or> dataset_file = ''refcoco+'' \<or> dataset_file = ''refcocog''
        then build_refexp dataset_file image_set args
      else Inl (ValueError (''dataset '' @ dataset_file @ '' not supported'')))"

section \<open>Reference definitions for the catalog\<close>

text \<open>
  The anchors as the specification words them: the arithmetic progression
  \<open>0, T, 2T, ...\<close> below the number of frames; and the catalog as one entry per video,
  expression and anchor, in that order, every field of the entry written out.
\<close>

definition anchor_positions :: "nat \<Rightarrow> nat \<Rightarrow> nat list" where
  "anchor_positions n T = map (\<lambda>k. k * T) [0..<(n + T - 1) div T]"

definition catalog_spec :: "nat \<Rightarrow> manifest \<Rightarrow> meta list" where
  "catalog_spec T man =
     concat (map (\<lambda>(vid, data).
       concat (map (\<lambda>(exp_id, exp_dict).
         map (\<lambda>anchor.
               \<lparr> meta_video = vid,
                 meta_exp = exp_exp exp_dict,
                 meta_obj_id = exp_obj_id exp_dict,
                 meta_anno_id = exp_anno_id exp_dict,
                 meta_frames = sort (vd_frames data),
                 meta_frame_id = int anchor,
                 meta_category = 0 \<rparr>)
           (anchor_positions (length (vd_frames data)) T)) (vd_expressions data))) man)"

section \<open>Example data\<close>

text \<open>
  A small dataset for the concrete runs below: one video of four frames of size 3 x 2, one
  expression bound to the annotation id \<open>1\<close>, whose object is visible in frame 2 only;
  clip length 2, hence two catalog entries, with anchors 0 and 2. The stand-in sampler takes
  consecutive frames from the anchor, the stand-in augmentation changes nothing, and neither
  draws from the random source. The two records that follow are what the builder assembles
  for the two catalog entries.
\<close>

text \<open>
  The captions of the example data are ASCII text, on which \<open>str.lower\<close> maps \<open>A .. Z\<close>
  to \<open>a .. z\<close> and \<open>str.split\<close> cuts at runs of the ASCII blanks; these two stand-ins do
  that and leave every other byte as it is.
\<close>

definition ascii_lower :: "string \<Rightarrow> string" where
  "ascii_lower e =
     map (\<lambda>c. let n = (of_char c :: nat) in if 65 \<le> n \<and> n \<le> 90 then char_of (n + 32) else c) e"

definition ascii_blank :: "char \<Rightarrow> bool" where
  "ascii_blank c \<longleftrightarrow> (of_char c :: nat) \<in> {9, 10, 11, 12, 13, 28, 29, 30, 31, 32}"

fun ascii_split_from :: "string \<Rightarrow> string \<Rightarrow> string list" where
  "ascii_split_from w [] = (if w = [] then [] else [w])"
| "ascii_split_from w (c # cs) =
     (if ascii_blank c
      then (if w = [] then ascii_split_from [] cs else w # ascii_split_from [] cs)
      else ascii_split_from (w @ [c]) cs)"

definition ascii_split :: "string \<Rightarrow> string list" where
  "ascii_split e = ascii_split_from [] e"

definition example_metas :: "meta list" where
  "example_metas =
     [\<lparr>meta_video = ''v1'', meta_exp = ''A  Person'', meta_obj_id = [1], meta_anno_id = [''1''],
       meta_frames = [''f0'', ''f1'', ''f2'', ''f3''], meta_frame_id = 0, meta_category = 0\<rparr>,
      \<lparr>meta_video = ''v1'', meta_exp = ''A  Person'', meta_obj_id = [1], meta_anno_id = [''1''],
       meta_frames = [''f0'', ''f1'', ''f2'', ''f3''], meta_frame_id = 2, meta_category = 0\<rparr>]"

definition example_dataset :: "(ndarray, image) dataset" where
  "example_dataset =
     \<lparr> sample_global_frames =
         (\<lambda>g anchor vid_len T. Inr (map (\<lambda>k. min (anchor + int k) (vid_len - 1)) [0..<nat T], g)),
       image_open = (\<lambda>video frame_name. Inr \<lparr>im_w = 3, im_h = 2\<rparr>),
       coco_decode = (\<lambda>rle. rle),
       transforms = (\<lambda>g imgs tgt. Inr ((imgs, tgt), g)),
       tensor_shape = (\<lambda>img. [3, im_h img, im_w img]),
       str_lower = ascii_lower,
       str_split = ascii_split,
       metas = example_metas,
       mask_dict = [''1'' \<mapsto> [None, None, Some [[0, 1, 1], [0, 0, 1]], None]],
       num_frames = 2 \<rparr>"

definition example_images :: "image list" where
  "example_images = [\<lparr>im_w = 3, im_h = 2\<rparr>, \<lparr>im_w = 3, im_h = 2\<rparr>]"

definition example_target_0 :: target where
  "example_target_0 =
     \<lparr>frames_idx = [0, 1], labels = [0, 0], boxes = [(0, 0, 0, 0), (0, 0, 0, 0)],
      masks = [[[0, 0, 0], [0, 0, 0]], [[0, 0, 0], [0, 0, 0]]],
      valid = [0, 0], caption = ''a person'', orig_size = (2, 3),
      size_hw = (2, 3), video_id = ''v1'', exp_id = 0\<rparr>"

definition example_target_1 :: target where
  "example_target_1 =
     \<lparr>frames_idx = [2, 3], labels = [0, 0], boxes = [(1, 0, 2, 1), (0, 0, 0, 0)],
      masks = [[[0, 1, 1], [0, 0, 1]], [[0, 0, 0], [0, 0, 0]]],
      valid = [1, 0], caption = ''a person'', orig_size = (2, 3),
      size_hw = (2, 3), video_id = ''v1'', exp_id = 1\<rparr>"

text \<open>
  The example dataset with an augmentation that uses the random source: on the raw draw 0
  it crops every object away (no position stays valid), on any other draw it changes
  nothing.
\<close>

definition example_crop_dataset :: "(ndarray, image) dataset" where
  "example_crop_dataset =
     example_dataset
       \<lparr> transforms :=
           (\<lambda>g imgs tgt.
              if g 0 = 0
              then Inr ((imgs, tgt \<lparr> valid := map (\<lambda>v. 0) (valid tgt) \<rparr>), \<lambda>n. g (Suc n))
              else Inr ((imgs, tgt), \<lambda>n. g (Suc n))) \<rparr>"

section \<open>Reference definitions for masks and boxes\<close>

text \<open>
  The rows and columns of an array that hold a nonzero entry, the tight box around them in
  the order \<open>(x1, y1, x2, y2)\<close>, and the sum over the annotation ids of the decoded masks
  at one pixel of one frame, where an absent entry counts 0.
\<close>

definition nonzero_rows :: "ndarray \<Rightarrow> nat set" where
  "nonzero_rows a = {r. r < length a \<and> (\<exists>c < length (a ! r). a ! r ! c \<noteq> 0)}"

definition nonzero_cols :: "ndarray \<Rightarrow> nat set" where
  "nonzero_cols a = {c. \<exists>r < length a. c < length (a ! r) \<and> a ! r ! c \<noteq> 0}"

definition tight_box :: "ndarray \<Rightarrow> box" where
  "tight_box a =
     (int (Min (nonzero_cols a)), int (Min (nonzero_rows a)),
      int (Max (nonzero_cols a)), int (Max (nonzero_rows a)))"

definition coverage ::
  "('rle \<Rightarrow> ndarray) \<Rightarrow> (string \<rightharpoonup> 'rle option list) \<Rightarrow> int \<Rightarrow> string list \<Rightarrow> nat \<Rightarrow> nat \<Rightarrow> nat" where
  "coverage dec mdict frame_indx anno_id r c =
     sum_list (map (\<lambda>x. case mdict x of
                           None \<Rightarrow> 0
                         | Some per_frame \<Rightarrow>
                             (case py_get per_frame frame_indx of
                                Inr (Some frm_anno) \<Rightarrow> dec frm_anno ! r ! c
                              | _ \<Rightarrow> 0)) anno_id)"


definition example_overlap_dataset :: "(ndarray, image) dataset" where
  "example_overlap_dataset =
     example_dataset
       \<lparr> metas :=
           [\<lparr>meta_video = ''v1'', meta_exp = ''Two cats'', meta_obj_id = [1, 2],
             meta_anno_id = [''1'', ''2''], meta_frames = [''f0'', ''f1'', ''f2'', ''f3''],
             meta_frame_id = 2, meta_category = 0\<rparr>],
         mask_dict :=
           [''1'' \<mapsto> [None, None, Some [[0, 1, 1], [0, 0, 1]], None],
            ''2'' \<mapsto> [None, None, Some [[0, 0, 1], [0, 0, 1]], Some [[1, 0, 0], [0, 0, 0]]]] \<rparr>"

definition example_overlap_target :: target where
  "example_overlap_target =
     \<lparr>frames_idx = [2, 3], labels = [0, 0], boxes = [(1, 0, 2, 1), (0, 0, 0, 0)],
      masks = [[[0, 1, 2], [0, 0, 2]], [[1, 0, 0], [0, 0, 0]]],
      valid = [1, 1], caption = ''two cats'', orig_size = (2, 3),
      size_hw = (2, 3), video_id = ''v1'', exp_id = 0\<rparr>"

section \<open>Properties of the catalog\<close>

lemma ceil_div_step:
  assumes "0 < step" "i < stop"
  shows "(stop - i + step - 1) div step = Suc ((stop - (i + step) + step - 1) div step)"
proof (cases "stop \<le> i + step")
  case True
  with assms have a: "stop - i + step - 1 < 2 * step" and b: "step \<le> stop - i + step - 1" by auto
  define y where "y = stop - i + step - 1"
  have "y div step = 1"
    using a b assms(1) unfolding y_def [symmetric]
    by (simp add: div_nat_eqI)
  moreover from True assms have "(stop - (i + step) + step - 1) div step = 0" by simp
  ultimately show ?thesis unfolding y_def by simp
next
  case False
  define x where "x = stop - (i + step) + step - 1"
  from False assms have e: "stop - i + step - 1 = x + step" by (simp add: x_def)
  have "(x + step) div step = x div step + 1" using assms(1) by (intro div_add_self2) simp
  then show ?thesis unfolding e x_def by simp
qed

lemma py_range_from_eq:
  "0 < step \<Longrightarrow> py_range_from i stop step = map (\<lambda>k. i + k * step) [0..<(stop - i + step - 1) div step]"
proof (induction i stop step rule: py_range_from.induct)
  case (1 i stop step)
  show ?case
  proof (cases "stop \<le> i")
    case True
    with 1(2) show ?thesis by (simp add: py_range_from.simps [of i stop step])
  next
    case False
    then have lt: "i < stop" by simp
    define m where "m = (stop - (i + step) + step - 1) div step"
    have n: "(stop - i + step - 1) div step = Suc m"
      unfolding m_def using 1(2) lt by (rule ceil_div_step)
    have "py_range_from i stop step = i # py_range_from (i + step) stop step"
      using False 1(2) by (simp add: py_range_from.simps [of i stop step])
    also have "py_range_from (i + step) stop step = map (\<lambda>k. (i + step) + k * step) [0..<m]"
      unfolding m_def using 1 False by simp
    also have "i # map (\<lambda>k. (i + step) + k * step) [0..<m] = map (\<lambda>k. i + k * step) [0..<Suc m]"
      by (simp add: map_upt_Suc del: upt_Suc)
    finally show ?thesis unfolding n .
  qed
qed

lemma py_range_anchor: "0 < T \<Longrightarrow> py_range n (int T) = Inr (anchor_positions n T)"
  unfolding py_range_def anchor_positions_def by (simp add: py_range_from_eq)

lemma anchor_index_bound:
  assumes "0 < (T::nat)"
  shows "k < (n + T - 1) div T \<longleftrightarrow> k * T < n"
proof -
  have "k < (n + T - 1) div T \<longleftrightarrow> Suc k \<le> (n + T - 1) div T" by auto
  also have "\<dots> \<longleftrightarrow> Suc k * T \<le> n + T - 1"
    using assms by (rule less_eq_div_iff_mult_less_eq)
  also have "\<dots> \<longleftrightarrow> k * T < n" using assms by auto
  finally show ?thesis .
qed

lemma set_anchor_positions:
  assumes "0 < T"
  shows "set (anchor_positions n T) = {a. a < n \<and> T dvd a}"
proof (intro set_eqI iffI)
  fix a assume "a \<in> set (anchor_positions n T)"
  then obtain k where "k < (n + T - 1) div T" "a = k * T"
    by (auto simp: anchor_positions_def)
  then show "a \<in> {a. a < n \<and> T dvd a}"
    using anchor_index_bound [OF assms, of k n] by simp
next
  fix a assume "a \<in> {a. a < n \<and> T dvd a}"
  then obtain k where k: "a = k * T" "a < n" by (auto simp: dvd_def mult.commute)
  then have "k < (n + T - 1) div T" using anchor_index_bound [OF assms, of k n] by simp
  then show "a \<in> set (anchor_positions n T)"
    unfolding anchor_positions_def using k(1) by auto
qed


lemma anchors_loop_eq:
  "anchors_loop vid e vf as ms = ms @ map (make_meta vid e vf) as"
  by (induction as arbitrary: ms) simp_all

lemma expressions_loop_eq:
  assumes "0 < T"
  shows "expressions_loop (int T) vid vf es ms =
    Inr (ms @ concat (map (\<lambda>(exp_id, exp_dict).
           map (\<lambda>anchor.
                 \<lparr> meta_video = vid,
                   meta_exp = exp_exp exp_dict,
                   meta_obj_id = exp_obj_id exp_dict,
                   meta_anno_id = exp_anno_id exp_dict,
                   meta_frames = vf,
                   meta_frame_id = int anchor,
                   meta_category = 0 \<rparr>)
             (anchor_positions (length vf) T)) es))"
proof (induction es arbitrary: ms)
  case Nil
  show ?case by simp
next
  case (Cons p es)
  obtain exp_id exp_dict where p: "p = (exp_id, exp_dict)" by (cases p)
  show ?case
    unfolding p by (simp add: py_range_anchor [OF assms] anchors_loop_eq Cons.IH make_meta_def)
qed

lemma videos_loop_eq:
  assumes "0 < T"
  shows "videos_loop (int T) man ms = Inr (ms @ catalog_spec T man)"
proof (induction man arbitrary: ms)
  case Nil
  show ?case by (simp add: catalog_spec_def)
next
  case (Cons p man)
  obtain vid data where p: "p = (vid, data)" by (cases p)
  show ?case
    unfolding p by (simp add: expressions_loop_eq [OF assms] Cons.IH catalog_spec_def)
qed

lemma prepare_metas_eq:
  "0 < T \<Longrightarrow> prepare_metas (int T) man = Inr (catalog_spec T man)"
  by (simp add: prepare_metas_def videos_loop_eq)

lemma sorted_anchor_positions: "sorted (anchor_positions n T)"
  unfolding anchor_positions_def by (auto simp: sorted_iff_nth_mono)

lemma distinct_anchor_positions: "0 < T \<Longrightarrow> distinct (anchor_positions n T)"
  unfolding anchor_positions_def by (simp add: distinct_map inj_on_def)

lemma anchor_positions_10_5: "anchor_positions 10 5 = [0, 5]"
  by (simp add: anchor_positions_def upt_rec)


text \<open>
  Claim C4. For a positive clip length \<open>T\<close>, \<open>prepare_metas\<close> returns the catalog that has,
  for every video and every expression of it in manifest order, exactly one entry per anchor
  of the progression \<open>0, T, 2T, ...\<close> below the number of frames of the video (the anchors
  are the multiples of \<open>T\<close> below that number, each once, in increasing order), every
  entry carrying the video, the expression text, the object ids, the annotation ids, the
  lexicographically sorted frame names and the anchor. One video of 10 frames with one
  expression and \<open>T = 5\<close> gives exactly two entries, with anchors 0 and 5.
\<close>

theorem prepare_metas_catalog:
  assumes "0 < T"
  shows "prepare_metas (int T) man = Inr (catalog_spec T man)
    \<and> set (anchor_positions n T) = {a. a < n \<and> T dvd a}
    \<and> sorted (anchor_positions n T) \<and> distinct (anchor_positions n T)
    \<and> (length fs = 10 \<and> T = 5 \<longrightarrow>
         prepare_metas (int T) [(vid, \<lparr>vd_frames = fs, vd_expressions = [(eid, e)]\<rparr>)]
           = Inr [\<lparr>meta_video = vid, meta_exp = exp_exp e, meta_obj_id = exp_obj_id e,
                  meta_anno_id = exp_anno_id e, meta_frames = sort fs, meta_frame_id = 0,
                  meta_category = 0\<rparr>,
                 \<lparr>meta_video = vid, meta_exp = exp_exp e, meta_obj_id = exp_obj_id e,
                  meta_anno_id = exp_anno_id e, meta_frames = sort fs, meta_frame_id = 5,
                  meta_category = 0\<rparr>])"
proof (intro conjI impI)
  show "prepare_metas (int T) man = Inr (catalog_spec T man)"
    using assms by (rule prepare_metas_eq)
  show "set (anchor_positions n T) = {a. a < n \<and> T dvd a}"
    using assms by (rule set_anchor_positions)
  show "sorted (anchor_positions n T)" by (rule sorted_anchor_positions)
  show "distinct (anchor_positions n T)" using assms by (rule distinct_anchor_positions)
next
  assume a: "length fs = 10 \<and> T = 5"
  then show "prepare_metas (int T) [(vid, \<lparr>vd_frames = fs, vd_expressions = [(eid, e)]\<rparr>)]
           = Inr [\<lparr>meta_video = vid, meta_exp = exp_exp e, meta_obj_id = exp_obj_id e,
                  meta_anno_id = exp_anno_id e, meta_frames = sort fs, meta_frame_id = 0,
                  meta_category = 0\<rparr>,
                 \<lparr>meta_video = vid, meta_exp = exp_exp e, meta_obj_id = exp_obj_id e,
                  meta_anno_id = exp_anno_id e, meta_frames = sort fs, meta_frame_id = 5,
                  meta_category = 0\<rparr>]"
    using prepare_metas_eq [OF assms, of "[(vid, \<lparr>vd_frames = fs, vd_expressions = [(eid, e)]\<rparr>)]"]
    by (simp add: catalog_spec_def anchor_positions_10_5)
qed

theorem prepare_metas_catalog_witness:
  "(0::nat) < 5 \<and>
   prepare_metas 5
     [(''v1'', \<lparr>vd_frames = [''f9'', ''f8'', ''f7'', ''f6'', ''f5'', ''f4'', ''f3'', ''f2'', ''f1'', ''f0''],
               vd_expressions = [(''0'', \<lparr>exp_exp = ''a person'', exp_obj_id = [1], exp_anno_id = [''1'']\<rparr>)]\<rparr>)]
   = Inr [\<lparr>meta_video = ''v1'', meta_exp = ''a person'', meta_obj_id = [1], meta_anno_id = [''1''],
           meta_frames = [''f0'', ''f1'', ''f2'', ''f3'', ''f4'', ''f5'', ''f6'', ''f7'', ''f8'', ''f9''],
           meta_frame_id = 0, meta_category = 0\<rparr>,
          \<lparr>meta_video = ''v1'', meta_exp = ''a person'', meta_obj_id = [1], meta_anno_id = [''1''],
           meta_frames = [''f0'', ''f1'', ''f2'', ''f3'', ''f4'', ''f5'', ''f6'', ''f7'', ''f8'', ''f9''],
           meta_frame_id = 5, meta_category = 0\<rparr>]"
proof -
  have s: "sort [''f9'', ''f8'', ''f7'', ''f6'', ''f5'', ''f4'', ''f3'', ''f2'', ''f1'', ''f0'']
      = [''f0'', ''f1'', ''f2'', ''f3'', ''f4'', ''f5'', ''f6'', ''f7'', ''f8'', ''f9'']"
    by code_simp
  have p: "(0::nat) < 5" by simp
  show ?thesis
    using prepare_metas_catalog [OF p, of "[]" 10
        "[''f9'', ''f8'', ''f7'', ''f6'', ''f5'', ''f4'', ''f3'', ''f2'', ''f1'', ''f0'']"
        "''v1''" "''0''" "\<lparr>exp_exp = ''a person'', exp_obj_id = [1], exp_anno_id = [''1'']\<rparr>"]
    by (simp add: s)
qed

text \<open>
  Claim C5, as stated, fails: an expression with two object ids and one annotation id is
  accepted, no error is raised, and the catalog entry made from it has lists of different
  lengths.
\<close>

theorem prepare_metas_length_mismatch:
  "prepare_metas 1
     [(''v1'', \<lparr>vd_frames = [''f0''],
               vd_expressions = [(''0'', \<lparr>exp_exp = ''a person'', exp_obj_id = [1, 2], exp_anno_id = [''1'']\<rparr>)]\<rparr>)]
   = Inr [\<lparr>meta_video = ''v1'', meta_exp = ''a person'', meta_obj_id = [1, 2], meta_anno_id = [''1''],
           meta_frames = [''f0''], meta_frame_id = 0, meta_category = 0\<rparr>]
   \<and> length [1, 2 :: int] \<noteq> length [''1'']"
  by (simp add: prepare_metas_def py_range_def py_range_from.simps [of 0] py_range_from.simps [of "Suc 0"] make_meta_def)

lemma catalog_spec_origin:
  assumes "m \<in> set (catalog_spec T man)"
  shows "\<exists>(vid, data) \<in> set man. \<exists>(exp_id, exp_dict) \<in> set (vd_expressions data).
           meta_obj_id m = exp_obj_id exp_dict \<and> meta_anno_id m = exp_anno_id exp_dict"
  using assms unfolding catalog_spec_def by fastforce

text \<open>
  Claim C5, amended. For a positive clip length \<open>prepare_metas\<close> compares no lengths and
  raises nothing on their account: it returns a catalog in which every entry holds the
  object-id list and the annotation-id list of one expression of the manifest, unchanged.
  So the two lists of every entry have equal length whenever those of every expression of
  the manifest have.
\<close>

theorem prepare_metas_copies_ids:
  assumes "0 < T"
  shows "\<exists>ms. prepare_metas (int T) man = Inr ms
    \<and> (\<forall>m \<in> set ms. \<exists>(vid, data) \<in> set man. \<exists>(exp_id, exp_dict) \<in> set (vd_expressions data).
           meta_obj_id m = exp_obj_id exp_dict \<and> meta_anno_id m = exp_anno_id exp_dict)
    \<and> ((\<forall>(vid, data) \<in> set man. \<forall>(exp_id, exp_dict) \<in> set (vd_expressions data).
           length (exp_obj_id exp_dict) = length (exp_anno_id exp_dict))
         \<longrightarrow> (\<forall>m \<in> set ms. length (meta_obj_id m) = length (meta_anno_id m)))"
proof -
  have o: "\<forall>m \<in> set (catalog_spec T man). \<exists>(vid, data) \<in> set man.
      \<exists>(exp_id, exp_dict) \<in> set (vd_expressions data).
        meta_obj_id m = exp_obj_id exp_dict \<and> meta_anno_id m = exp_anno_id exp_dict"
    using catalog_spec_origin by blast
  have "(\<forall>(vid, data) \<in> set man. \<forall>(exp_id, exp_dict) \<in> set (vd_expressions data).
           length (exp_obj_id exp_dict) = length (exp_anno_id exp_dict))
         \<longrightarrow> (\<forall>m \<in> set (catalog_spec T man). length (meta_obj_id m) = length (meta_anno_id m))"
    using o by fastforce
  with o prepare_metas_eq [OF assms, of man] show ?thesis by blast
qed

theorem prepare_metas_copies_ids_witness:
  "(0::nat) < 1
   \<and> length (exp_obj_id \<lparr>exp_exp = ''two cats'', exp_obj_id = [1, 2], exp_anno_id = [''1'', ''2'']\<rparr>)
     = length (exp_anno_id \<lparr>exp_exp = ''two cats'', exp_obj_id = [1, 2], exp_anno_id = [''1'', ''2'']\<rparr>)
   \<and> (\<exists>ms. prepare_metas (int 1)
          [(''v1'', \<lparr>vd_frames = [''f0''],
             vd_expressions = [(''0'', \<lparr>exp_exp = ''two cats'', exp_obj_id = [1, 2],
                                        exp_anno_id = [''1'', ''2'']\<rparr>)]\<rparr>)] = Inr ms
        \<and> (\<forall>m \<in> set ms. length (meta_obj_id m) = length (meta_anno_id m)))"
proof -
  have p: "(0::nat) < 1" by simp
  have h: "\<forall>(vid, data) \<in> set [(''v1'', \<lparr>vd_frames = [''f0''],
           vd_expressions = [(''0'', \<lparr>exp_exp = ''two cats'', exp_obj_id = [1, 2],
                                      exp_anno_id = [''1'', ''2'']\<rparr>)]\<rparr>)].
        \<forall>(exp_id, exp_dict) \<in> set (vd_expressions data).
          length (exp_obj_id exp_dict) = length (exp_anno_id exp_dict)"
    by simp
  have "\<exists>ms. prepare_metas (int 1)
          [(''v1'', \<lparr>vd_frames = [''f0''],
             vd_expressions = [(''0'', \<lparr>exp_exp = ''two cats'', exp_obj_id = [1, 2],
                                        exp_anno_id = [''1'', ''2'']\<rparr>)]\<rparr>)] = Inr ms
        \<and> (\<forall>m \<in> set ms. length (meta_obj_id m) = length (meta_anno_id m))"
    using h prepare_metas_copies_ids [OF p, of
        "[(''v1'', \<lparr>vd_frames = [''f0''],
           vd_expressions = [(''0'', \<lparr>exp_exp = ''two cats'', exp_obj_id = [1, 2],
                                      exp_anno_id = [''1'', ''2'']\<rparr>)]\<rparr>)]"]
    by blast
  then show ?thesis by simp
qed

section \<open>The dataset facade\<close>

text \<open>
  Claim C9. \<open>build_dataset\<close> looks at the dataset name only: each of the six names calls
  its builder and returns what the builder returns, and every other name raises the
  \<open>ValueError\<close> that reports the dataset as not supported.
\<close>

theorem build_dataset_dispatch:
  "build_dataset b_mevis b_ytvos b_davis b_refexp ''mevis'' image_set args = b_mevis image_set args
   \<and> build_dataset b_mevis b_ytvos b_davis b_refexp ''ytvos'' image_set args = b_ytvos image_set args
   \<and> build_dataset b_mevis b_ytvos b_davis b_refexp ''davis'' image_set args = b_davis image_set args
   \<and> build_dataset b_mevis b_ytvos b_davis b_refexp ''refcoco'' image_set args
       = b_refexp ''refcoco'' image_set args
   \<and> build_dataset b_mevis b_ytvos b_davis b_refexp ''refcoco+'' image_set args
       = b_refexp ''refcoco+'' image_set args
   \<and> build_dataset b_mevis b_ytvos b_davis b_refexp ''refcocog'' image_set args
       = b_refexp ''refcocog'' image_set args
   \<and> (dataset_file \<notin> {''mevis'', ''ytvos'', ''davis'', ''refcoco'', ''refcoco+'', ''refcocog''} \<longrightarrow>
        build_dataset b_mevis b_ytvos b_davis b_refexp dataset_file image_set args
          = Inl (ValueError (''dataset '' @ dataset_file @ '' not supported'')))"
  by (simp add: build_dataset_def)

theorem build_dataset_dispatch_witness:
  "''coco'' \<notin> {''mevis'', ''ytvos'', ''davis'', ''refcoco'', ''refcoco+'', ''refcocog''}
   \<and> build_dataset (\<lambda>s a. Inr (1::nat)) (\<lambda>s a. Inr 2) (\<lambda>s a. Inr 3) (\<lambda>d s a. Inr 4)
        ''coco'' ''train'' () = Inl (ValueError ''dataset coco not supported'')
   \<and> build_dataset (\<lambda>s a. Inr (1::nat)) (\<lambda>s a. Inr 2) (\<lambda>s a. Inr 3) (\<lambda>d s a. Inr 4)
        ''refcoco+'' ''train'' () = Inr 4"
  using build_dataset_dispatch [of "\<lambda>s a. Inr (1::nat)" "\<lambda>s a. Inr 2" "\<lambda>s a. Inr 3"
      "\<lambda>d s a. Inr 4" "''train''" "()" "''coco''"]
  by simp

section \<open>The retry loop\<close>

lemma getitem_returns:
  assumes "getitem (D :: ('rle, 'ti) dataset) g idx = Some y"
  shows "\<forall>r. y = Inr r \<longrightarrow>
    (\<exists>g0 idx0. attempt D g0 idx0 = Inr r \<and> any_valid (snd (fst r))
       \<and> (g0 = g \<and> idx0 = idx
          \<or> (\<exists>imgs tgt g'. attempt D g idx = Inr ((imgs, tgt), g') \<and> \<not> any_valid tgt)
            \<and> (\<exists>g1. randint 0 (int (length (metas D)) - 1) g1 = Inr (idx0, g0))))"
proof -
  let ?P = "\<lambda>(D :: ('rle, 'ti) dataset) g idx y. \<forall>r. y = Inr r \<longrightarrow>
    (\<exists>g0 idx0. attempt D g0 idx0 = Inr r \<and> any_valid (snd (fst r))
       \<and> (g0 = g \<and> idx0 = idx
          \<or> (\<exists>imgs tgt g'. attempt D g idx = Inr ((imgs, tgt), g') \<and> \<not> any_valid tgt)
            \<and> (\<exists>g1. randint 0 (int (length (metas D)) - 1) g1 = Inr (idx0, g0))))"
  show ?thesis
  proof (rule getitem.raw_induct [where P = ?P, OF _ assms])
    fix f :: "('rle, 'ti) dataset \<Rightarrow> rng \<Rightarrow> int \<Rightarrow> (py_error + (('ti list \<times> target) \<times> rng)) option"
    fix D g idx y
    assume IH: "\<And>D g idx y. f D g idx = Some y \<Longrightarrow> ?P D g idx y"
    assume body: "(case attempt D g idx of
        Inl e \<Rightarrow> Some (Inl e)
      | Inr ((imgs, tgt), g') \<Rightarrow>
          if any_valid tgt then Some (Inr ((imgs, tgt), g'))
          else (case randint 0 (int (length (metas D)) - 1) g' of
                  Inl e \<Rightarrow> Some (Inl e)
                | Inr (idx', g'') \<Rightarrow> f D g'' idx')) = Some y"
    show "?P D g idx y"
    proof (cases "attempt D g idx")
      case (Inl e)
      with body show ?thesis by auto
    next
      case (Inr a)
      obtain imgs tgt g' where a: "a = ((imgs, tgt), g')" by (metis prod.collapse)
      show ?thesis
      proof (cases "any_valid tgt")
        case True
        with body Inr a show ?thesis by auto
      next
        case False
        show ?thesis
        proof (cases "randint 0 (int (length (metas D)) - 1) g'")
          case (Inl e)
          with body Inr a False show ?thesis by auto
        next
          case r: (Inr b)
          obtain idx' g'' where b: "b = (idx', g'')" by (cases b)
          from body Inr a False r b have rec: "f D g'' idx' = Some y" by simp
          have first: "\<exists>imgs tgt g'. attempt D g idx = Inr ((imgs, tgt), g') \<and> \<not> any_valid tgt"
            using Inr a False by blast
          show ?thesis
          proof (intro allI impI)
            fix res assume y: "y = Inr res"
            from IH [OF rec] y obtain g0 idx0 where
              at: "attempt D g0 idx0 = Inr res" and v: "any_valid (snd (fst res))" and
              c: "g0 = g'' \<and> idx0 = idx'
                 \<or> (\<exists>g1. randint 0 (int (length (metas D)) - 1) g1 = Inr (idx0, g0))"
              by blast
            from c r b have "\<exists>g1. randint 0 (int (length (metas D)) - 1) g1 = Inr (idx0, g0)"
              by auto
            with at v first show "\<exists>g0 idx0. attempt D g0 idx0 = Inr res \<and> any_valid (snd (fst res))
               \<and> (g0 = g \<and> idx0 = idx
                 \<or> (\<exists>imgs tgt g'. attempt D g idx = Inr ((imgs, tgt), g') \<and> \<not> any_valid tgt)
                   \<and> (\<exists>g1. randint 0 (int (length (metas D)) - 1) g1 = Inr (idx0, g0)))"
              by blast
          qed
        qed
      qed
    qed
  qed
qed




lemma getitem_retry:
  assumes "attempt D g idx = Inr ((imgs, tgt), g1)" "\<not> any_valid tgt"
    "randint 0 (int (length (metas D)) - 1) g1 = Inr (r, g2)"
  shows "getitem D g idx = getitem D g2 r"
  using assms by (subst getitem.simps) simp

lemma getitem_done:
  assumes "attempt D g idx = Inr ((imgs, tgt), g1)" "any_valid tgt"
  shows "getitem D g idx = Some (Inr ((imgs, tgt), g1))"
  using assms by (subst getitem.simps) simp


section \<open>The assembled target\<close>

lemma torch_stack_same: "torch_stack shp xs = Inr ys \<Longrightarrow> ys = xs \<and> xs \<noteq> []"
  by (auto simp: torch_stack_def split: list.splits if_splits)

lemma frames_loop_lengths:
  "frames_loop step js (is, ls, bs, ms, vs) = Inr (is', ls', bs', ms', vs') \<Longrightarrow>
     length is' = length is + length js \<and> length ls' = length ls + length js
     \<and> length bs' = length bs + length js \<and> length ms' = length ms + length js
     \<and> length vs' = length vs + length js"
proof (induction js arbitrary: "is" ls bs ms vs)
  case Nil
  then show ?case by simp
next
  case (Cons j js)
  from Cons.prems obtain img label bx msk v where
    s: "step j = Inr (img, label, bx, msk, v)" and
    r: "frames_loop step js (is @ [img], ls @ [label], bs @ [bx], ms @ [msk], vs @ [v])
          = Inr (is', ls', bs', ms', vs')"
    by (auto split: sum.splits)
  from Cons.IH [OF r] show ?case by simp
qed

lemma assemble_cases:
  assumes "assemble D g idx = Inr ((imgs, tgt), g')"
  obtains m sample_indx ls bs ms vs where
    "py_get (metas D) idx = Inr m"
    "sample_global_frames D g (meta_frame_id m) (int (length (meta_frames m))) (num_frames D)
       = Inr (sample_indx, g')"
    "frames_loop (frame_step (image_open D) (coco_decode D) (mask_dict D) (meta_video m)
        (meta_frames m) (meta_anno_id m) sample_indx) [0..<nat (num_frames D)] ([], [], [], [], [])
       = Inr (imgs, ls, bs, ms, vs)"
    "imgs \<noteq> []"
    "torch_stack mask_shape ms = Inr ms"
    "tgt = \<lparr> frames_idx = sample_indx, labels = ls,
             boxes = map (clamp_box (im_w (last imgs)) (im_h (last imgs))) bs,
             masks = ms, valid = vs, caption = clean_caption D (meta_exp m),
             orig_size = (int (im_h (last imgs)), int (im_w (last imgs))),
             size_hw = (int (im_h (last imgs)), int (im_w (last imgs))),
             video_id = meta_video m, exp_id = idx \<rparr>"
proof -
  from assms obtain m where m: "py_get (metas D) idx = Inr m"
    by (cases "py_get (metas D) idx") (simp_all add: assemble_def)
  from assms m obtain sample_indx g1 where
    s: "sample_global_frames D g (meta_frame_id m) (int (length (meta_frames m))) (num_frames D)
       = Inr (sample_indx, g1)"
    by (cases "sample_global_frames D g (meta_frame_id m) (int (length (meta_frames m)))
          (num_frames D)") (auto simp: assemble_def)
  from assms m s obtain st where
    f: "frames_loop (frame_step (image_open D) (coco_decode D) (mask_dict D) (meta_video m)
        (meta_frames m) (meta_anno_id m) sample_indx) [0..<nat (num_frames D)] ([], [], [], [], [])
       = Inr st"
    by (cases "frames_loop (frame_step (image_open D) (coco_decode D) (mask_dict D) (meta_video m)
        (meta_frames m) (meta_anno_id m) sample_indx) [0..<nat (num_frames D)] ([], [], [], [], [])")
       (simp_all add: assemble_def)
  from assms m s f have mt: "make_target m (clean_caption D (meta_exp m)) idx sample_indx st = Inr (imgs, tgt)" and g: "g' = g1"
    by (cases "make_target m (clean_caption D (meta_exp m)) idx sample_indx st"; simp add: assemble_def)+
  obtain ims ls bs ms vs where st: "st = (ims, ls, bs, ms, vs)" by (rule prod_cases5)
  from mt have ne: "ims \<noteq> []"
    unfolding st make_target_def by (simp split: if_splits)
  from mt ne obtain ms' where sk: "torch_stack mask_shape ms = Inr ms'"
    unfolding st make_target_def by (cases "torch_stack mask_shape ms") (simp_all add: Let_def)
  then have ms': "ms' = ms" by (simp add: torch_stack_same)
  from mt ne sk ms' have
    "imgs = ims"
    "tgt = \<lparr> frames_idx = sample_indx, labels = ls,
             boxes = map (clamp_box (im_w (last ims)) (im_h (last ims))) bs,
             masks = ms, valid = vs, caption = clean_caption D (meta_exp m),
             orig_size = (int (im_h (last ims)), int (im_w (last ims))),
             size_hw = (int (im_h (last ims)), int (im_w (last ims))),
             video_id = meta_video m, exp_id = idx \<rparr>"
    unfolding st make_target_def by (auto simp: Let_def)
  with that [of m sample_indx ls bs ms vs] m s f g st ne sk ms' show thesis by simp
qed

lemma assemble_lengths:
  assumes "assemble D g idx = Inr ((imgs, tgt), g')"
  shows "0 < num_frames D \<and> int (length imgs) = num_frames D
    \<and> int (length (labels tgt)) = num_frames D \<and> int (length (boxes tgt)) = num_frames D
    \<and> int (length (masks tgt)) = num_frames D \<and> int (length (valid tgt)) = num_frames D"
proof -
  from assms obtain m sample_indx ls bs ms vs where
    "py_get (metas D) idx = Inr m"
    "sample_global_frames D g (meta_frame_id m) (int (length (meta_frames m))) (num_frames D)
       = Inr (sample_indx, g')"
    and f: "frames_loop (frame_step (image_open D) (coco_decode D) (mask_dict D) (meta_video m)
        (meta_frames m) (meta_anno_id m) sample_indx) [0..<nat (num_frames D)] ([], [], [], [], [])
       = Inr (imgs, ls, bs, ms, vs)"
    and ne: "imgs \<noteq> []"
    and "torch_stack mask_shape ms = Inr ms"
    and t: "tgt = \<lparr> frames_idx = sample_indx, labels = ls,
             boxes = map (clamp_box (im_w (last imgs)) (im_h (last imgs))) bs,
             masks = ms, valid = vs, caption = clean_caption D (meta_exp m),
             orig_size = (int (im_h (last imgs)), int (im_w (last imgs))),
             size_hw = (int (im_h (last imgs)), int (im_w (last imgs))),
             video_id = meta_video m, exp_id = idx \<rparr>"
    by (rule assemble_cases)
  from frames_loop_lengths [OF f] have l: "length imgs = nat (num_frames D)"
    "length ls = nat (num_frames D)" "length bs = nat (num_frames D)"
    "length ms = nat (num_frames D)" "length vs = nat (num_frames D)"
    by simp_all
  from l(1) ne have "0 < num_frames D" by (cases "0 < num_frames D") auto
  with l t show ?thesis by simp
qed

lemma attempt_cases:
  assumes "attempt D g idx = Inr ((imgs', tgt'), g'')"
  obtains imgs tgt g' where
    "assemble D g idx = Inr ((imgs, tgt), g')"
    "transforms D g' imgs tgt = Inr ((imgs', tgt'), g'')"
    "imgs' \<noteq> []"
proof -
  from assms obtain imgs tgt g' where a: "assemble D g idx = Inr ((imgs, tgt), g')"
    by (simp add: attempt_def split: sum.splits) (metis prod.collapse)
  from assms a obtain is2 t2 g2 where t: "transforms D g' imgs tgt = Inr ((is2, t2), g2)"
    by (simp add: attempt_def split: sum.splits) (metis prod.collapse)
  from assms a t obtain is3 where s: "torch_stack (tensor_shape D) is2 = Inr is3"
    by (auto simp: attempt_def split: sum.splits)
  then have "is3 = is2" "is2 \<noteq> []" by (simp_all add: torch_stack_same)
  with assms a t s have "imgs' = is2" "tgt' = t2" "g'' = g2" by (simp_all add: attempt_def)
  with that a t \<open>is2 \<noteq> []\<close> show thesis by simp
qed

lemma attempt_fields:
  assumes a: "attempt D g idx = Inr ((imgs, tgt), g')"
    and keep: "\<forall>g imgs t imgs' t' g'. transforms D g imgs t = Inr ((imgs', t'), g') \<longrightarrow>
        exp_id t' = exp_id t \<and> caption t' = caption t \<and> video_id t' = video_id t"
  shows "\<exists>m. py_get (metas D) idx = Inr m \<and> exp_id tgt = idx
    \<and> video_id tgt = meta_video m \<and> caption tgt = clean_caption D (meta_exp m)"
proof -
  from a obtain imgs0 tgt0 g0 where
    as: "assemble D g idx = Inr ((imgs0, tgt0), g0)" and
    tr: "transforms D g0 imgs0 tgt0 = Inr ((imgs, tgt), g')"
    by (rule attempt_cases)
  from as obtain m sample_indx ls bs ms vs where
    m: "py_get (metas D) idx = Inr m"
    and "sample_global_frames D g (meta_frame_id m) (int (length (meta_frames m))) (num_frames D)
       = Inr (sample_indx, g0)"
    and "frames_loop (frame_step (image_open D) (coco_decode D) (mask_dict D) (meta_video m)
        (meta_frames m) (meta_anno_id m) sample_indx) [0..<nat (num_frames D)] ([], [], [], [], [])
       = Inr (imgs0, ls, bs, ms, vs)"
    and "imgs0 \<noteq> []"
    and "torch_stack mask_shape ms = Inr ms"
    and t: "tgt0 = \<lparr> frames_idx = sample_indx, labels = ls,
             boxes = map (clamp_box (im_w (last imgs0)) (im_h (last imgs0))) bs,
             masks = ms, valid = vs, caption = clean_caption D (meta_exp m),
             orig_size = (int (im_h (last imgs0)), int (im_w (last imgs0))),
             size_hw = (int (im_h (last imgs0)), int (im_w (last imgs0))),
             video_id = meta_video m, exp_id = idx \<rparr>"
    by (rule assemble_cases)
  from keep tr have "exp_id tgt = exp_id tgt0 \<and> caption tgt = caption tgt0
      \<and> video_id tgt = video_id tgt0"
    by blast
  with t m show ?thesis by simp
qed

section \<open>Runs on the example data\<close>

lemma upt_2: "[0..<nat 2] = [0, 1]" "[0..<2] = [0, 1]"
  by code_simp+

lemma clean_caption_example: "clean_caption example_dataset ''A  Person'' = ''a person''"
  by code_simp


lemma example_sel:
  "metas example_dataset = example_metas"
  "num_frames example_dataset = 2"
  "transforms example_dataset g imgs tgt = Inr ((imgs, tgt), g)"
  "tensor_shape example_dataset img = [3, im_h img, im_w img]"
  "sample_global_frames example_dataset g anchor vid_len T
     = Inr (map (\<lambda>k. min (anchor + int k) (vid_len - 1)) [0..<nat T], g)"
  by (simp_all add: example_dataset_def)

lemma example_frames_loop_0:
  "frames_loop (frame_step (image_open example_dataset) (coco_decode example_dataset)
       (mask_dict example_dataset) ''v1'' [''f0'', ''f1'', ''f2'', ''f3''] [''1''] [0, 1])
     [0, Suc 0] ([], [], [], [], [])
   = Inr ([\<lparr>im_w = 3, im_h = 2\<rparr>, \<lparr>im_w = 3, im_h = 2\<rparr>], [0, 0], [(0, 0, 0, 0), (0, 0, 0, 0)],
          [[[0, 0, 0], [0, 0, 0]], [[0, 0, 0], [0, 0, 0]]], [0, 0])"
  by code_simp

lemma example_frames_loop_1:
  "frames_loop (frame_step (image_open example_dataset) (coco_decode example_dataset)
       (mask_dict example_dataset) ''v1'' [''f0'', ''f1'', ''f2'', ''f3''] [''1''] [2, 3])
     [0, Suc 0] ([], [], [], [], [])
   = Inr ([\<lparr>im_w = 3, im_h = 2\<rparr>, \<lparr>im_w = 3, im_h = 2\<rparr>], [0, 0], [(1, 0, 2, 1), (0, 0, 0, 0)],
          [[[0, 1, 1], [0, 0, 1]], [[0, 0, 0], [0, 0, 0]]], [1, 0])"
  by code_simp

lemma assemble_example_0:
  "assemble example_dataset g 0 =
     Inr ((example_images, example_target_0), g)"
  unfolding assemble_def make_target_def example_images_def example_target_0_def example_target_1_def
  by (simp add: example_sel example_metas_def py_get_def upt_2 example_frames_loop_0
      torch_stack_def mask_shape_def nrows_def ncols_def clamp_box_def clamp_def
      clean_caption_example del: frames_loop.simps)

lemma assemble_example_1:
  "assemble example_dataset g 1 =
     Inr ((example_images, example_target_1), g)"
  unfolding assemble_def make_target_def example_images_def example_target_0_def example_target_1_def
  by (simp add: example_sel example_metas_def py_get_def upt_2 example_frames_loop_1
      torch_stack_def mask_shape_def nrows_def ncols_def clamp_box_def clamp_def
      clean_caption_example del: frames_loop.simps)

lemma attempt_example_0:
  "attempt example_dataset g 0 =
     Inr ((example_images, example_target_0), g)"
  unfolding attempt_def by (simp add: assemble_example_0 example_sel torch_stack_def example_images_def)

lemma attempt_example_1:
  "attempt example_dataset g 1 =
     Inr ((example_images, example_target_1), g)"
  unfolding attempt_def by (simp add: assemble_example_1 example_sel torch_stack_def example_images_def)

lemma example_randint:
  "randint 0 (int (length (metas example_dataset)) - 1) (\<lambda>_. 1) = Inr (1, \<lambda>_. 1)"
  "randint 0 (int (length (metas example_dataset)) - 1) (\<lambda>_. 0) = Inr (0, \<lambda>_. 0)"
  by (simp_all add: randint_def example_sel example_metas_def)

lemma getitem_example_resampled:
  "getitem example_dataset (\<lambda>_. 1) 0 =
     Some (Inr ((example_images, example_target_1), \<lambda>_. 1))"
proof -
  have "getitem example_dataset (\<lambda>_. 1) 0 = getitem example_dataset (\<lambda>_. 1) 1"
    by (rule getitem_retry [OF attempt_example_0 _ example_randint(1)])
       (simp add: any_valid_def example_target_0_def)
  also have "\<dots> = Some (Inr ((example_images, example_target_1), \<lambda>_. 1))"
    by (rule getitem_done [OF attempt_example_1]) (simp add: any_valid_def example_target_1_def)
  finally show ?thesis .
qed




section \<open>Lengths and identity of the returned sample\<close>

lemma getitem_returns_Inr:
  assumes "getitem D g idx = Some (Inr ((imgs, tgt), gf))"
  shows "\<exists>g0 idx0. attempt D g0 idx0 = Inr ((imgs, tgt), gf) \<and> any_valid tgt
       \<and> (g0 = g \<and> idx0 = idx
          \<or> (\<exists>imgs1 tgt1 g1. attempt D g idx = Inr ((imgs1, tgt1), g1) \<and> \<not> any_valid tgt1)
            \<and> (\<exists>g1. randint 0 (int (length (metas D)) - 1) g1 = Inr (idx0, g0)))"
  using getitem_returns [OF assms] by simp

text \<open>
  Claim C8. The images and the label, box, mask and validity sequences of the target
  that the builder assembles each have exactly \<open>num_frames\<close> entries, one appended per
  round of the loop over the sampled positions (and the clip length is then positive). The
  returned sample has the same lengths whenever the augmentation keeps the lengths of the
  sequences it is given.
\<close>

theorem sample_lengths:
  "(assemble D g idx = Inr ((imgs, tgt), g') \<longrightarrow>
      0 < num_frames D \<and> int (length imgs) = num_frames D
      \<and> int (length (labels tgt)) = num_frames D \<and> int (length (boxes tgt)) = num_frames D
      \<and> int (length (masks tgt)) = num_frames D \<and> int (length (valid tgt)) = num_frames D)
   \<and> ((\<forall>g imgs t imgs' t' g'. transforms D g imgs t = Inr ((imgs', t'), g') \<longrightarrow>
          length imgs' = length imgs \<and> length (labels t') = length (labels t)
          \<and> length (boxes t') = length (boxes t) \<and> length (masks t') = length (masks t)
          \<and> length (valid t') = length (valid t))
        \<and> getitem D g0 idx0 = Some (Inr ((imgs2, tgt2), gf)) \<longrightarrow>
      int (length imgs2) = num_frames D
      \<and> int (length (labels tgt2)) = num_frames D \<and> int (length (boxes tgt2)) = num_frames D
      \<and> int (length (masks tgt2)) = num_frames D \<and> int (length (valid tgt2)) = num_frames D)"
proof (rule conjI; rule impI)
  assume "assemble D g idx = Inr ((imgs, tgt), g')"
  from assemble_lengths [OF this]
  show "0 < num_frames D \<and> int (length imgs) = num_frames D
      \<and> int (length (labels tgt)) = num_frames D \<and> int (length (boxes tgt)) = num_frames D
      \<and> int (length (masks tgt)) = num_frames D \<and> int (length (valid tgt)) = num_frames D" .
next
  assume h: "(\<forall>g imgs t imgs' t' g'. transforms D g imgs t = Inr ((imgs', t'), g') \<longrightarrow>
          length imgs' = length imgs \<and> length (labels t') = length (labels t)
          \<and> length (boxes t') = length (boxes t) \<and> length (masks t') = length (masks t)
          \<and> length (valid t') = length (valid t))
        \<and> getitem D g0 idx0 = Some (Inr ((imgs2, tgt2), gf))"
  then have "getitem D g0 idx0 = Some (Inr ((imgs2, tgt2), gf))" by simp
  from getitem_returns_Inr [OF this] obtain g1 idx1 where
    "attempt D g1 idx1 = Inr ((imgs2, tgt2), gf)" by blast
  then obtain imgs1 tgt1 g2 where
    a: "assemble D g1 idx1 = Inr ((imgs1, tgt1), g2)" and
    t: "transforms D g2 imgs1 tgt1 = Inr ((imgs2, tgt2), gf)" and "imgs2 \<noteq> []"
    by (rule attempt_cases)
  from h t have "length imgs2 = length imgs1 \<and> length (labels tgt2) = length (labels tgt1)
          \<and> length (boxes tgt2) = length (boxes tgt1) \<and> length (masks tgt2) = length (masks tgt1)
          \<and> length (valid tgt2) = length (valid tgt1)"
    by blast
  with assemble_lengths [OF a]
  show "int (length imgs2) = num_frames D
      \<and> int (length (labels tgt2)) = num_frames D \<and> int (length (boxes tgt2)) = num_frames D
      \<and> int (length (masks tgt2)) = num_frames D \<and> int (length (valid tgt2)) = num_frames D"
    by simp
qed

theorem sample_lengths_witness:
  "assemble example_dataset (\<lambda>_. 1) 1 = Inr ((example_images, example_target_1), \<lambda>_. 1)
   \<and> getitem example_dataset (\<lambda>_. 1) 0 = Some (Inr ((example_images, example_target_1), \<lambda>_. 1))
   \<and> num_frames example_dataset = 2
   \<and> length example_images = 2 \<and> length (labels example_target_1) = 2
   \<and> length (boxes example_target_1) = 2 \<and> length (masks example_target_1) = 2
   \<and> length (valid example_target_1) = 2"
proof -
  have a: "assemble example_dataset (\<lambda>_. 1) 1 = Inr ((example_images, example_target_1), \<lambda>_. 1)"
    by (rule assemble_example_1)
  have b: "getitem example_dataset (\<lambda>_. 1) 0 = Some (Inr ((example_images, example_target_1), \<lambda>_. 1))"
    by (rule getitem_example_resampled)
  have c: "\<forall>g imgs t imgs' t' g'. transforms example_dataset g imgs t = Inr ((imgs', t'), g') \<longrightarrow>
          length imgs' = length imgs \<and> length (labels t') = length (labels t)
          \<and> length (boxes t') = length (boxes t) \<and> length (masks t') = length (masks t)
          \<and> length (valid t') = length (valid t)"
    by (simp add: example_sel)
  have n: "num_frames example_dataset = 2" by (simp add: example_sel)
  from a b c
    sample_lengths [of example_dataset "\<lambda>_. 1" 1 example_images example_target_1 "\<lambda>_. 1"
      "\<lambda>_. 1" 0 example_images example_target_1 "\<lambda>_. 1"]
  have "int (length example_images) = num_frames example_dataset
      \<and> int (length (labels example_target_1)) = num_frames example_dataset
      \<and> int (length (boxes example_target_1)) = num_frames example_dataset
      \<and> int (length (masks example_target_1)) = num_frames example_dataset
      \<and> int (length (valid example_target_1)) = num_frames example_dataset"
    by blast
  with a b n show ?thesis by simp
qed

lemma retry_Some:
  "retry D (g, idx) = Some (g2, idx2) \<longleftrightarrow>
     (\<exists>imgs tgt g1. attempt D g idx = Inr ((imgs, tgt), g1) \<and> \<not> any_valid tgt
        \<and> randint 0 (int (length (metas D)) - 1) g1 = Inr (idx2, g2))"
  by (auto simp: retry_def split: sum.splits prod.splits if_splits)

lemma retries_last:
  "retries (Suc n) D s = (case retries n D s of None \<Rightarrow> None | Some s1 \<Rightarrow> retry D s1)"
proof (induction n arbitrary: s)
  case 0
  show ?case by (simp split: option.splits)
next
  case (Suc n)
  show ?case
  proof (cases "retry D s")
    case None
    then show ?thesis by simp
  next
    case (Some s')
    have "retries (Suc (Suc n)) D s = retries (Suc n) D s'" using Some by simp
    also have "\<dots> = (case retries n D s' of None \<Rightarrow> None | Some s1 \<Rightarrow> retry D s1)"
      by (rule Suc.IH)
    also have "retries n D s' = retries (Suc n) D s" using Some by simp
    finally show ?thesis .
  qed
qed

lemma getitem_retries:
  assumes "getitem (D :: ('rle, 'ti) dataset) g idx = Some y"
  shows "\<forall>r. y = Inr r \<longrightarrow>
    (\<exists>n g0 idx0. retries n D (g, idx) = Some (g0, idx0)
       \<and> attempt D g0 idx0 = Inr r \<and> any_valid (snd (fst r)))"
proof -
  let ?P = "\<lambda>(D :: ('rle, 'ti) dataset) g idx y. \<forall>r. y = Inr r \<longrightarrow>
    (\<exists>n g0 idx0. retries n D (g, idx) = Some (g0, idx0)
       \<and> attempt D g0 idx0 = Inr r \<and> any_valid (snd (fst r)))"
  show ?thesis
  proof (rule getitem.raw_induct [where P = ?P, OF _ assms])
    fix f :: "('rle, 'ti) dataset \<Rightarrow> rng \<Rightarrow> int \<Rightarrow> (py_error + (('ti list \<times> target) \<times> rng)) option"
    fix D g idx y
    assume IH: "\<And>D g idx y. f D g idx = Some y \<Longrightarrow> ?P D g idx y"
    assume body: "(case attempt D g idx of
        Inl e \<Rightarrow> Some (Inl e)
      | Inr ((imgs, tgt), g') \<Rightarrow>
          if any_valid tgt then Some (Inr ((imgs, tgt), g'))
          else (case randint 0 (int (length (metas D)) - 1) g' of
                  Inl e \<Rightarrow> Some (Inl e)
                | Inr (idx', g'') \<Rightarrow> f D g'' idx')) = Some y"
    show "?P D g idx y"
    proof (cases "attempt D g idx")
      case (Inl e)
      with body show ?thesis by auto
    next
      case (Inr a)
      obtain imgs tgt g' where a: "a = ((imgs, tgt), g')" by (metis prod.collapse)
      show ?thesis
      proof (cases "any_valid tgt")
        case True
        with body Inr a have "y = Inr ((imgs, tgt), g')" by simp
        moreover have "retries 0 D (g, idx) = Some (g, idx)" by simp
        ultimately show ?thesis using Inr a True by (metis fst_conv snd_conv sum.inject(2))
      next
        case False
        show ?thesis
        proof (cases "randint 0 (int (length (metas D)) - 1) g'")
          case (Inl e)
          with body Inr a False show ?thesis by auto
        next
          case r: (Inr b)
          obtain idx' g'' where b: "b = (idx', g'')" by (cases b)
          from body Inr a False r b have rec: "f D g'' idx' = Some y" by simp
          have st: "retry D (g, idx) = Some (g'', idx')"
            using Inr a False r b by (simp add: retry_def)
          show ?thesis
          proof (intro allI impI)
            fix res assume y: "y = Inr res"
            from IH [OF rec] y obtain n g0 idx0 where
              n: "retries n D (g'', idx') = Some (g0, idx0)" and
              at: "attempt D g0 idx0 = Inr res" and v: "any_valid (snd (fst res))"
              by blast
            from n st have "retries (Suc n) D (g, idx) = Some (g0, idx0)" by simp
            with at v show "\<exists>n g0 idx0. retries n D (g, idx) = Some (g0, idx0)
               \<and> attempt D g0 idx0 = Inr res \<and> any_valid (snd (fst res))"
              by blast
          qed
        qed
      qed
    qed
  qed
qed

lemma retries_getitem:
  assumes "retries n D (g, idx) = Some (g0, idx0)"
  shows "getitem D g idx = getitem D g0 idx0"
  using assms
proof (induction n arbitrary: g idx)
  case 0
  then show ?case by simp
next
  case (Suc n)
  from Suc.prems obtain g1 idx1 where s: "retry D (g, idx) = Some (g1, idx1)"
    and r: "retries n D (g1, idx1) = Some (g0, idx0)"
    by (auto split: option.splits)
  from s obtain imgs tgt ga where "attempt D g idx = Inr ((imgs, tgt), ga)" "\<not> any_valid tgt"
    "randint 0 (int (length (metas D)) - 1) ga = Inr (idx1, g1)"
    by (auto simp: retry_Some)
  then have "getitem D g idx = getitem D g1 idx1" by (rule getitem_retry)
  with Suc.IH [OF r] show ?case by simp
qed

lemma assemble_transforms_update:
  "assemble (D \<lparr> transforms := f \<rparr>) g idx = assemble D g idx"
  by (simp add: assemble_def clean_caption_def cong: sum.case_cong prod.case_cong)

lemma assemble_crop: "assemble example_crop_dataset g idx = assemble example_dataset g idx"
  unfolding example_crop_dataset_def by (rule assemble_transforms_update)

lemma example_crop_sel:
  "metas example_crop_dataset = example_metas"
  "tensor_shape example_crop_dataset img = [3, im_h img, im_w img]"
  "transforms example_crop_dataset g imgs tgt =
     (if g 0 = 0
      then Inr ((imgs, tgt \<lparr> valid := map (\<lambda>v. 0) (valid tgt) \<rparr>), \<lambda>n. g (Suc n))
      else Inr ((imgs, tgt), \<lambda>n. g (Suc n)))"
  by (simp_all add: example_crop_dataset_def example_dataset_def)

lemma attempt_crop_1:
  "attempt example_crop_dataset g 1 =
     (if g 0 = 0
      then Inr ((example_images, example_target_1 \<lparr> valid := [0, 0] \<rparr>), \<lambda>n. g (Suc n))
      else Inr ((example_images, example_target_1), \<lambda>n. g (Suc n)))"
  unfolding attempt_def
  by (simp add: assemble_crop assemble_example_1 example_crop_sel torch_stack_def
      example_images_def)
     (simp add: example_target_1_def)

lemma crop_randint:
  "randint 0 (int (length (metas example_crop_dataset)) - 1) Suc = Inr (1, \<lambda>n. Suc (Suc n))"
  by (simp add: randint_def example_crop_sel example_metas_def)

lemma crop_first_invalid: "\<not> any_valid (example_target_1 \<lparr> valid := [0, 0] \<rparr>)"
  by (simp add: any_valid_def)

lemma example_target_1_valid: "any_valid example_target_1"
  by (simp add: any_valid_def example_target_1_def)

lemma crop_retries_1:
  "retries 1 example_crop_dataset (id, 1) = Some (\<lambda>n. Suc (Suc n), 1)"
  by (simp add: retry_def attempt_crop_1 crop_first_invalid crop_randint)

text \<open>
  Claim C10, as stated, fails: the returned \<open>exp_id\<close> can equal the requested index
  after a retry. On the example data with the cropping augmentation and the raw draws
  0, 1, 2, a request for index 1 fails once (the crop leaves no valid position),
  \<open>randint\<close> draws index 1 again, and the second attempt returns the sample with
  \<open>exp_id\<close> 1.
\<close>

theorem getitem_retry_same_index:
  "attempt example_crop_dataset id 1
     = Inr ((example_images, example_target_1 \<lparr> valid := [0, 0] \<rparr>), Suc)
   \<and> \<not> any_valid (example_target_1 \<lparr> valid := [0, 0] \<rparr>)
   \<and> randint 0 (int (length (metas example_crop_dataset)) - 1) Suc
       = Inr (1, \<lambda>n. Suc (Suc n))
   \<and> getitem example_crop_dataset id 1
       = Some (Inr ((example_images, example_target_1), \<lambda>n. Suc (Suc (Suc n))))
   \<and> exp_id example_target_1 = 1"
proof -
  have a1: "attempt example_crop_dataset id 1
     = Inr ((example_images, example_target_1 \<lparr> valid := [0, 0] \<rparr>), Suc)"
    by (simp add: attempt_crop_1)
  have a2: "attempt example_crop_dataset (\<lambda>n. Suc (Suc n)) 1
     = Inr ((example_images, example_target_1), \<lambda>n. Suc (Suc (Suc n)))"
    by (simp add: attempt_crop_1)
  have "getitem example_crop_dataset id 1 = getitem example_crop_dataset (\<lambda>n. Suc (Suc n)) 1"
    by (rule getitem_retry [OF a1 crop_first_invalid crop_randint])
  also have "\<dots> = Some (Inr ((example_images, example_target_1), \<lambda>n. Suc (Suc (Suc n))))"
    by (rule getitem_done [OF a2 example_target_1_valid])
  finally have "getitem example_crop_dataset id 1
       = Some (Inr ((example_images, example_target_1), \<lambda>n. Suc (Suc (Suc n))))" .
  moreover have "exp_id example_target_1 = 1" by (simp add: example_target_1_def)
  ultimately show ?thesis using a1 crop_first_invalid crop_randint by blast
qed

text \<open>
  Claim C10, amended. With an augmentation that passes \<open>exp_id\<close>, the caption and the
  video id through, the sample that \<open>__getitem__\<close> returns is the attempt at the last
  index built, after some number \<open>n\<close> of passes that ended in a redraw: its \<open>exp_id\<close> is
  that index and its caption and video id are those of that catalog entry. With no retry
  that index is the requested one; after a retry it is the index that \<open>randint\<close> drew on
  the generator state left by the last failed attempt, which may differ from the requested
  index (on the example dataset a request for index 0 returns the sample of index 1) or
  coincide with it. Conversely, passes that end in a redraw followed by a valid attempt
  make \<open>__getitem__\<close> return that attempt.
\<close>

theorem getitem_exp_id:
  "((\<forall>g imgs t imgs' t' g'. transforms D g imgs t = Inr ((imgs', t'), g') \<longrightarrow>
        exp_id t' = exp_id t \<and> caption t' = caption t \<and> video_id t' = video_id t)
     \<and> getitem D g idx = Some (Inr ((imgs, tgt), gf)) \<longrightarrow>
     (\<exists>n g0 idx0 m. retries n D (g, idx) = Some (g0, idx0)
        \<and> attempt D g0 idx0 = Inr ((imgs, tgt), gf) \<and> any_valid tgt
        \<and> py_get (metas D) idx0 = Inr m
        \<and> exp_id tgt = idx0 \<and> video_id tgt = meta_video m
        \<and> caption tgt = clean_caption D (meta_exp m)
        \<and> (n = 0 \<longrightarrow> g0 = g \<and> idx0 = idx)
        \<and> (0 < n \<longrightarrow>
             (\<exists>g1 idx1 imgs1 tgt1 ga. retries (n - 1) D (g, idx) = Some (g1, idx1)
                \<and> attempt D g1 idx1 = Inr ((imgs1, tgt1), ga) \<and> \<not> any_valid tgt1
                \<and> randint 0 (int (length (metas D)) - 1) ga = Inr (idx0, g0))))
     \<and> (\<forall>imgs1 tgt1 g1. attempt D g idx = Inr ((imgs1, tgt1), g1) \<and> any_valid tgt1 \<longrightarrow>
           exp_id tgt = idx))
   \<and> (retries k D (g, idx) = Some (g2, idx2) \<and> attempt D g2 idx2 = Inr ((imgs2, tgt2), gf2)
        \<and> any_valid tgt2 \<longrightarrow>
        getitem D g idx = Some (Inr ((imgs2, tgt2), gf2)))
   \<and> getitem example_dataset (\<lambda>_. 1) 0 = Some (Inr ((example_images, example_target_1), \<lambda>_. 1))
   \<and> exp_id example_target_1 \<noteq> 0"
proof (intro conjI)
  show "getitem example_dataset (\<lambda>_. 1) 0 = Some (Inr ((example_images, example_target_1), \<lambda>_. 1))"
    by (rule getitem_example_resampled)
  show "exp_id example_target_1 \<noteq> 0" by (simp add: example_target_1_def)
  show "retries k D (g, idx) = Some (g2, idx2) \<and> attempt D g2 idx2 = Inr ((imgs2, tgt2), gf2)
        \<and> any_valid tgt2 \<longrightarrow>
        getitem D g idx = Some (Inr ((imgs2, tgt2), gf2))"
    using retries_getitem [of k D g idx g2 idx2] getitem_done [of D g2 idx2 imgs2 tgt2 gf2]
    by simp
  show "(\<forall>g imgs t imgs' t' g'. transforms D g imgs t = Inr ((imgs', t'), g') \<longrightarrow>
        exp_id t' = exp_id t \<and> caption t' = caption t \<and> video_id t' = video_id t)
     \<and> getitem D g idx = Some (Inr ((imgs, tgt), gf)) \<longrightarrow>
     (\<exists>n g0 idx0 m. retries n D (g, idx) = Some (g0, idx0)
        \<and> attempt D g0 idx0 = Inr ((imgs, tgt), gf) \<and> any_valid tgt
        \<and> py_get (metas D) idx0 = Inr m
        \<and> exp_id tgt = idx0 \<and> video_id tgt = meta_video m
        \<and> caption tgt = clean_caption D (meta_exp m)
        \<and> (n = 0 \<longrightarrow> g0 = g \<and> idx0 = idx)
        \<and> (0 < n \<longrightarrow>
             (\<exists>g1 idx1 imgs1 tgt1 ga. retries (n - 1) D (g, idx) = Some (g1, idx1)
                \<and> attempt D g1 idx1 = Inr ((imgs1, tgt1), ga) \<and> \<not> any_valid tgt1
                \<and> randint 0 (int (length (metas D)) - 1) ga = Inr (idx0, g0))))
     \<and> (\<forall>imgs1 tgt1 g1. attempt D g idx = Inr ((imgs1, tgt1), g1) \<and> any_valid tgt1 \<longrightarrow>
           exp_id tgt = idx)"
  proof (rule impI, rule conjI)
    assume h: "(\<forall>g imgs t imgs' t' g'. transforms D g imgs t = Inr ((imgs', t'), g') \<longrightarrow>
        exp_id t' = exp_id t \<and> caption t' = caption t \<and> video_id t' = video_id t)
     \<and> getitem D g idx = Some (Inr ((imgs, tgt), gf))"
    then have keep: "\<forall>g imgs t imgs' t' g'. transforms D g imgs t = Inr ((imgs', t'), g') \<longrightarrow>
        exp_id t' = exp_id t \<and> caption t' = caption t \<and> video_id t' = video_id t"
      and ret: "getitem D g idx = Some (Inr ((imgs, tgt), gf))"
      by blast+
    from getitem_retries [OF ret] obtain n g0 idx0 where
      n: "retries n D (g, idx) = Some (g0, idx0)" and
      at: "attempt D g0 idx0 = Inr ((imgs, tgt), gf)" and v: "any_valid tgt"
      by auto
    from attempt_fields [OF at keep] obtain m where
      f: "py_get (metas D) idx0 = Inr m" "exp_id tgt = idx0" "video_id tgt = meta_video m"
      "caption tgt = clean_caption D (meta_exp m)"
      by blast
    have z: "n = 0 \<longrightarrow> g0 = g \<and> idx0 = idx" using n by auto
    have p: "0 < n \<longrightarrow>
             (\<exists>g1 idx1 imgs1 tgt1 ga. retries (n - 1) D (g, idx) = Some (g1, idx1)
                \<and> attempt D g1 idx1 = Inr ((imgs1, tgt1), ga) \<and> \<not> any_valid tgt1
                \<and> randint 0 (int (length (metas D)) - 1) ga = Inr (idx0, g0))"
    proof
      assume "0 < n"
      then obtain k where k: "n = Suc k" by (cases n) auto
      from n have "(case retries k D (g, idx) of None \<Rightarrow> None | Some s1 \<Rightarrow> retry D s1)
          = Some (g0, idx0)"
        unfolding k by (simp only: retries_last)
      then obtain g1 idx1 where r1: "retries k D (g, idx) = Some (g1, idx1)"
        and r2: "retry D (g1, idx1) = Some (g0, idx0)"
        by (auto split: option.splits)
      from r2 obtain imgs1 tgt1 ga where "attempt D g1 idx1 = Inr ((imgs1, tgt1), ga)"
        "\<not> any_valid tgt1" "randint 0 (int (length (metas D)) - 1) ga = Inr (idx0, g0)"
        by (auto simp: retry_Some)
      with r1 k show "\<exists>g1 idx1 imgs1 tgt1 ga. retries (n - 1) D (g, idx) = Some (g1, idx1)
                \<and> attempt D g1 idx1 = Inr ((imgs1, tgt1), ga) \<and> \<not> any_valid tgt1
                \<and> randint 0 (int (length (metas D)) - 1) ga = Inr (idx0, g0)"
        by auto
    qed
    from n at v f z p
    show "\<exists>n g0 idx0 m. retries n D (g, idx) = Some (g0, idx0)
        \<and> attempt D g0 idx0 = Inr ((imgs, tgt), gf) \<and> any_valid tgt
        \<and> py_get (metas D) idx0 = Inr m
        \<and> exp_id tgt = idx0 \<and> video_id tgt = meta_video m
        \<and> caption tgt = clean_caption D (meta_exp m)
        \<and> (n = 0 \<longrightarrow> g0 = g \<and> idx0 = idx)
        \<and> (0 < n \<longrightarrow>
             (\<exists>g1 idx1 imgs1 tgt1 ga. retries (n - 1) D (g, idx) = Some (g1, idx1)
                \<and> attempt D g1 idx1 = Inr ((imgs1, tgt1), ga) \<and> \<not> any_valid tgt1
                \<and> randint 0 (int (length (metas D)) - 1) ga = Inr (idx0, g0)))"
      by blast
    show "\<forall>imgs1 tgt1 g1. attempt D g idx = Inr ((imgs1, tgt1), g1) \<and> any_valid tgt1 \<longrightarrow>
           exp_id tgt = idx"
    proof (intro allI impI)
      fix imgs1 tgt1 g1
      assume a: "attempt D g idx = Inr ((imgs1, tgt1), g1) \<and> any_valid tgt1"
      then have "getitem D g idx = Some (Inr ((imgs1, tgt1), g1))" by (simp add: getitem_done)
      with ret have "tgt = tgt1" by simp
      moreover from a attempt_fields [OF _ keep] have "exp_id tgt1 = idx" by blast
      ultimately show "exp_id tgt = idx" by simp
    qed
  qed
qed

theorem getitem_exp_id_witness:
  "getitem example_crop_dataset id 1
     = Some (Inr ((example_images, example_target_1), \<lambda>n. Suc (Suc (Suc n))))
   \<and> (\<exists>n g0 idx0 m. 0 < n \<and> retries n example_crop_dataset (id, 1) = Some (g0, idx0)
        \<and> attempt example_crop_dataset g0 idx0
            = Inr ((example_images, example_target_1), \<lambda>n. Suc (Suc (Suc n)))
        \<and> py_get (metas example_crop_dataset) idx0 = Inr m
        \<and> exp_id example_target_1 = idx0 \<and> video_id example_target_1 = meta_video m
        \<and> caption example_target_1 = clean_caption example_crop_dataset (meta_exp m)
        \<and> (\<exists>g1 idx1 imgs1 tgt1 ga.
              retries (n - 1) example_crop_dataset (id, 1) = Some (g1, idx1)
              \<and> attempt example_crop_dataset g1 idx1 = Inr ((imgs1, tgt1), ga)
              \<and> \<not> any_valid tgt1
              \<and> randint 0 (int (length (metas example_crop_dataset)) - 1) ga = Inr (idx0, g0)))
   \<and> getitem example_dataset (\<lambda>_. 1) 1
       = Some (Inr ((example_images, example_target_1), \<lambda>_. 1))
   \<and> exp_id example_target_1 = 1"
proof -
  let ?gf = "\<lambda>n. Suc (Suc (Suc n))"
  note crop = getitem_exp_id [of example_crop_dataset id 1 example_images example_target_1
      ?gf 1 "\<lambda>n. Suc (Suc n)" 1 example_images example_target_1 ?gf]
  note plain = getitem_exp_id [of example_dataset "\<lambda>_. 1" 1 example_images example_target_1
      "\<lambda>_. 1" 0 "\<lambda>_. 1" 1 example_images example_target_1 "\<lambda>_. 1"]
  have keep: "\<forall>g imgs t imgs' t' g'.
      transforms example_crop_dataset g imgs t = Inr ((imgs', t'), g') \<longrightarrow>
        exp_id t' = exp_id t \<and> caption t' = caption t \<and> video_id t' = video_id t"
    by (auto simp: example_crop_sel split: if_splits)
  have a2: "attempt example_crop_dataset (\<lambda>n. Suc (Suc n)) 1
     = Inr ((example_images, example_target_1), ?gf)"
    by (simp add: attempt_crop_1)
  from crop crop_retries_1 a2 example_target_1_valid
  have b: "getitem example_crop_dataset id 1 = Some (Inr ((example_images, example_target_1), ?gf))"
    by blast
  from crop keep b obtain n g0 idx0 m where
    r: "retries n example_crop_dataset (id, 1) = Some (g0, idx0)" and
    at: "attempt example_crop_dataset g0 idx0 = Inr ((example_images, example_target_1), ?gf)" and
    f: "py_get (metas example_crop_dataset) idx0 = Inr m" "exp_id example_target_1 = idx0"
      "video_id example_target_1 = meta_video m"
      "caption example_target_1 = clean_caption example_crop_dataset (meta_exp m)" and
    p: "0 < n \<longrightarrow> (\<exists>g1 idx1 imgs1 tgt1 ga.
              retries (n - 1) example_crop_dataset (id, 1) = Some (g1, idx1)
              \<and> attempt example_crop_dataset g1 idx1 = Inr ((imgs1, tgt1), ga)
              \<and> \<not> any_valid tgt1
              \<and> randint 0 (int (length (metas example_crop_dataset)) - 1) ga = Inr (idx0, g0))"
    by blast
  have n: "0 < n"
  proof (rule ccontr)
    assume "\<not> 0 < n"
    with r have "g0 = id" "idx0 = 1" by auto
    with at have "example_target_1 = example_target_1 \<lparr> valid := [0, 0] \<rparr>"
      by (simp add: attempt_crop_1)
    with example_target_1_valid crop_first_invalid show False by simp
  qed
  have keep': "\<forall>g imgs t imgs' t' g'.
      transforms example_dataset g imgs t = Inr ((imgs', t'), g') \<longrightarrow>
        exp_id t' = exp_id t \<and> caption t' = caption t \<and> video_id t' = video_id t"
    by (simp add: example_sel)
  have c: "getitem example_dataset (\<lambda>_. 1) 1
       = Some (Inr ((example_images, example_target_1), \<lambda>_. 1))"
    by (rule getitem_done [OF attempt_example_1 example_target_1_valid])
  from plain keep' c attempt_example_1 [of "\<lambda>_. 1"] example_target_1_valid
  have e: "exp_id example_target_1 = 1" by blast
  from n r at f p have "\<exists>n g0 idx0 m. 0 < n \<and> retries n example_crop_dataset (id, 1) = Some (g0, idx0)
        \<and> attempt example_crop_dataset g0 idx0
            = Inr ((example_images, example_target_1), \<lambda>n. Suc (Suc (Suc n)))
        \<and> py_get (metas example_crop_dataset) idx0 = Inr m
        \<and> exp_id example_target_1 = idx0 \<and> video_id example_target_1 = meta_video m
        \<and> caption example_target_1 = clean_caption example_crop_dataset (meta_exp m)
        \<and> (\<exists>g1 idx1 imgs1 tgt1 ga.
              retries (n - 1) example_crop_dataset (id, 1) = Some (g1, idx1)
              \<and> attempt example_crop_dataset g1 idx1 = Inr ((imgs1, tgt1), ga)
              \<and> \<not> any_valid tgt1
              \<and> randint 0 (int (length (metas example_crop_dataset)) - 1) ga = Inr (idx0, g0))"
    by blast
  with b c e show ?thesis by blast
qed

section \<open>Mask accumulation\<close>


lemma has_shape_ncols: "has_shape h w a \<Longrightarrow> 0 < h \<Longrightarrow> ncols a = w"
  by (cases a) (auto simp: has_shape_def ncols_def)

lemma has_shape_nrows: "has_shape h w a \<Longrightarrow> nrows a = h"
  by (simp add: has_shape_def nrows_def)

lemma has_shape_zeros: "has_shape h w (np_zeros h w)"
  by (simp add: has_shape_def np_zeros_def list_all_length)

lemma np_iadd_shape:
  assumes "has_shape h w a" "np_iadd a d = Inr a'"
  shows "has_shape h w a'"
proof (cases "h = 0")
  case True
  with assms show ?thesis
    by (auto simp: np_iadd_def has_shape_def nrows_def Let_def split: if_splits)
next
  case False
  with assms(1) have "ncols a = w" "nrows a = h"
    by (simp_all add: has_shape_ncols has_shape_nrows)
  with assms(2) show ?thesis
    by (auto simp: np_iadd_def has_shape_def Let_def list_all_length split: if_splits)
qed

lemma np_iadd_same_shape:
  assumes "has_shape h w a" "has_shape h w d"
  shows "\<exists>a'. np_iadd a d = Inr a' \<and> has_shape h w a'
           \<and> (\<forall>r < h. \<forall>c < w. a' ! r ! c = a ! r ! c + d ! r ! c)"
proof (cases "h = 0")
  case True
  with assms show ?thesis
    by (auto simp: np_iadd_def has_shape_def nrows_def ncols_def Let_def)
next
  case False
  with assms have s: "ncols a = w" "nrows a = h" "ncols d = w" "nrows d = h"
    by (simp_all add: has_shape_ncols has_shape_nrows)
  then have e: "np_iadd a d
      = Inr (map (\<lambda>r. map (\<lambda>c. a ! r ! c + d ! r ! c) [0..<w]) [0..<h])"
    by (simp add: np_iadd_def Let_def)
  show ?thesis
    unfolding e by (simp add: has_shape_def list_all_length)
qed


lemma anno_loop_shape:
  "has_shape h w acc \<Longrightarrow> anno_loop dec mdict fi xs acc = Inr m \<Longrightarrow> has_shape h w m"
proof (induction xs arbitrary: acc)
  case Nil
  then show ?case by simp
next
  case (Cons x xs)
  from Cons.prems(2) obtain pf where pf: "mdict x = Some pf"
    by (auto split: option.splits)
  show ?case
  proof (cases "py_get pf fi")
    case (Inl e)
    with Cons.prems(2) pf show ?thesis by simp
  next
    case (Inr ent)
    show ?thesis
    proof (cases ent)
      case None
      with Cons.prems pf Inr Cons.IH show ?thesis by simp
    next
      case (Some e)
      with Cons.prems(2) pf Inr obtain acc' where
        a: "np_iadd acc (dec e) = Inr acc'" and r: "anno_loop dec mdict fi xs acc' = Inr m"
        by (auto split: sum.splits)
      from np_iadd_shape [OF Cons.prems(1) a] have "has_shape h w acc'" .
      from Cons.IH [OF this r] show ?thesis .
    qed
  qed
qed

lemma anno_loop_all_null:
  "\<forall>x \<in> set xs. \<exists>pf. mdict x = Some pf \<and> py_get pf fi = Inr None \<Longrightarrow>
     anno_loop dec mdict fi xs acc = Inr acc"
  by (induction xs) auto

lemma anno_loop_sum:
  assumes "has_shape h w acc"
    and "\<forall>x \<in> set xs. \<forall>pf e. mdict x = Some pf \<longrightarrow> py_get pf fi = Inr (Some e) \<longrightarrow>
           has_shape h w (dec e)"
    and "anno_loop dec mdict fi xs acc = Inr m"
    and "r < h" "c < w"
  shows "m ! r ! c = acc ! r ! c + coverage dec mdict fi xs r c"
  using assms(1-3)
proof (induction xs arbitrary: acc)
  case Nil
  then show ?case by (simp add: coverage_def)
next
  case (Cons x xs)
  from Cons.prems(3) obtain pf where pf: "mdict x = Some pf"
    by (auto split: option.splits)
  from Cons.prems(2) have sh: "\<forall>x \<in> set xs. \<forall>pf e. mdict x = Some pf \<longrightarrow>
      py_get pf fi = Inr (Some e) \<longrightarrow> has_shape h w (dec e)"
    by simp
  show ?case
  proof (cases "py_get pf fi")
    case (Inl e)
    with Cons.prems(3) pf show ?thesis by simp
  next
    case (Inr ent)
    show ?thesis
    proof (cases ent)
      case None
      with Cons.prems(3) pf Inr have "anno_loop dec mdict fi xs acc = Inr m" by simp
      from Cons.IH [OF Cons.prems(1) sh this] pf Inr None show ?thesis
        by (simp add: coverage_def)
    next
      case (Some e)
      with Cons.prems(3) pf Inr obtain acc' where
        a: "np_iadd acc (dec e) = Inr acc'" and l: "anno_loop dec mdict fi xs acc' = Inr m"
        by (auto split: sum.splits)
      from Cons.prems(2) pf Inr Some have "has_shape h w (dec e)" by simp
      from np_iadd_same_shape [OF Cons.prems(1) this] a assms(4,5)
      have s: "has_shape h w acc'" and v: "acc' ! r ! c = acc ! r ! c + dec e ! r ! c"
        by auto
      from Cons.IH [OF s sh l] v pf Inr Some show ?thesis
        by (simp add: coverage_def)
    qed
  qed
qed

section \<open>Bounding boxes\<close>

lemma np_where_set: "set (np_where bs) = {i. i < length bs \<and> bs ! i}"
  by (auto simp: np_where_def)

lemma np_where_sorted: "sorted (np_where bs)"
  by (simp add: np_where_def sorted_wrt_filter)

lemma sorted_le_last: "sorted xs \<Longrightarrow> y \<in> set xs \<Longrightarrow> y \<le> last xs"
  by (induction xs) auto

lemma first_last_sorted:
  assumes "sorted xs" "xs \<noteq> []"
  shows "first_last xs = Inr (Min (set xs), Max (set xs))"
proof -
  from assms(2) obtain x ys where xs: "xs = x # ys" by (cases xs) auto
  with assms(1) have "\<forall>y \<in> set xs. x \<le> y" by auto
  then have mn: "Min (set xs) = x" using xs by (intro Min_eqI) auto
  have "\<forall>y \<in> set xs. y \<le> last xs" using assms(1) by (simp add: sorted_le_last)
  moreover have "last xs \<in> set xs" using assms(2) by simp
  ultimately have mx: "Max (set xs) = last xs" by (intro Max_eqI) auto
  show ?thesis using xs mn mx by (simp add: first_last_def)
qed

lemma rows_where: "set (np_where (np_any_axis1 a)) = nonzero_rows a"
  by (auto simp: np_where_set np_any_axis1_def nonzero_rows_def list_ex_length)

lemma cols_where:
  assumes "has_shape h w a" "0 < h"
  shows "set (np_where (np_any_axis0 a)) = nonzero_cols a"
proof -
  have n: "ncols a = w" using assms by (rule has_shape_ncols)
  have l: "\<And>r. r < length a \<Longrightarrow> length (a ! r) = w"
    using assms(1) by (simp add: has_shape_def list_all_length)
  show ?thesis
    unfolding np_where_set np_any_axis0_def nonzero_cols_def
    using l by (auto simp: n list_ex_length) force
qed

lemma any_positive_rows: "any_positive a \<longleftrightarrow> nonzero_rows a \<noteq> {}"
  by (auto simp: any_positive_def nonzero_rows_def list_ex_length)

lemma rows_cols_empty: "nonzero_rows a = {} \<longleftrightarrow> nonzero_cols a = {}"
  by (auto simp: nonzero_rows_def nonzero_cols_def)

lemma nonzero_rows_bound: "has_shape h w a \<Longrightarrow> nonzero_rows a \<subseteq> {..<h}"
  by (auto simp: nonzero_rows_def has_shape_def)

lemma nonzero_cols_bound: "has_shape h w a \<Longrightarrow> nonzero_cols a \<subseteq> {..<w}"
  by (auto simp: nonzero_cols_def has_shape_def list_all_length)

lemma bounding_box_tight:
  assumes "has_shape h w a" "any_positive a"
  shows "bounding_box a = Inr (Min (nonzero_rows a), Max (nonzero_rows a),
                               Min (nonzero_cols a), Max (nonzero_cols a))"
proof -
  from assms(2) have r: "nonzero_rows a \<noteq> {}" by (simp add: any_positive_rows)
  then have c: "nonzero_cols a \<noteq> {}" by (simp add: rows_cols_empty)
  from r nonzero_rows_bound [OF assms(1)] have h: "0 < h" by auto
  have r1: "first_last (np_where (np_any_axis1 a))
      = Inr (Min (nonzero_rows a), Max (nonzero_rows a))"
    using first_last_sorted [OF np_where_sorted, of "np_any_axis1 a"] r
    by (simp add: rows_where set_empty [symmetric] del: set_empty)
  have c1: "first_last (np_where (np_any_axis0 a))
      = Inr (Min (nonzero_cols a), Max (nonzero_cols a))"
    using first_last_sorted [OF np_where_sorted, of "np_any_axis0 a"] c
    by (simp add: cols_where [OF assms(1) h] set_empty [symmetric] del: set_empty)
  show ?thesis by (simp add: bounding_box_def r1 c1)
qed

lemma box_and_valid_eq:
  assumes "has_shape h w a"
  shows "box_and_valid a = Inr (if any_positive a then (tight_box a, 1) else ((0, 0, 0, 0), 0))"
  using bounding_box_tight [OF assms] by (simp add: box_and_valid_def tight_box_def)

lemma clamp_id: "0 \<le> v \<Longrightarrow> v \<le> hi \<Longrightarrow> clamp 0 hi v = v"
  by (simp add: clamp_def)

lemma clamp_range: "0 \<le> hi \<Longrightarrow> 0 \<le> clamp 0 hi v \<and> clamp 0 hi v \<le> hi"
  by (simp add: clamp_def)

lemma clamp_tight_box:
  assumes "has_shape h w a" "any_positive a"
  shows "clamp_box w h (tight_box a) = tight_box a"
proof -
  from assms(2) have r: "nonzero_rows a \<noteq> {}" by (simp add: any_positive_rows)
  then have c: "nonzero_cols a \<noteq> {}" by (simp add: rows_cols_empty)
  have fr: "finite (nonzero_rows a)" and fc: "finite (nonzero_cols a)"
    using nonzero_rows_bound [OF assms(1)] nonzero_cols_bound [OF assms(1)]
    by (auto intro: finite_subset)
  have "Max (nonzero_rows a) \<in> nonzero_rows a" "Min (nonzero_rows a) \<in> nonzero_rows a"
    "Max (nonzero_cols a) \<in> nonzero_cols a" "Min (nonzero_cols a) \<in> nonzero_cols a"
    using r c fr fc by simp_all
  with nonzero_rows_bound [OF assms(1)] nonzero_cols_bound [OF assms(1)]
  have "Max (nonzero_rows a) < h" "Min (nonzero_rows a) < h"
    "Max (nonzero_cols a) < w" "Min (nonzero_cols a) < w"
    by auto
  then show ?thesis by (simp add: clamp_box_def tight_box_def clamp_id)
qed

lemma clamp_box_zero: "clamp_box w h (0, 0, 0, 0) = (0, 0, 0, 0)"
  by (simp add: clamp_box_def clamp_def)

lemma clamp_box_range:
  assumes "clamp_box w h b = (x1, y1, x2, y2)"
  shows "0 \<le> x1 \<and> x1 \<le> int w \<and> 0 \<le> x2 \<and> x2 \<le> int w
     \<and> 0 \<le> y1 \<and> y1 \<le> int h \<and> 0 \<le> y2 \<and> y2 \<le> int h"
proof -
  obtain a1 b1 a2 b2 where b: "b = (a1, b1, a2, b2)" by (rule prod_cases4)
  from assms have e: "x1 = clamp 0 (int w) a1" "y1 = clamp 0 (int h) b1"
    "x2 = clamp 0 (int w) a2" "y2 = clamp 0 (int h) b2"
    by (simp_all add: clamp_box_def b)
  have w: "0 \<le> int w" and h: "0 \<le> int h" by simp_all
  show ?thesis
    unfolding e
    using clamp_range [OF w, of a1] clamp_range [OF w, of a2]
      clamp_range [OF h, of b1] clamp_range [OF h, of b2]
    by blast
qed

section \<open>The positions of the assembled sample\<close>

lemma frames_loop_results:
  "frames_loop step js (is, ls, bs, ms, vs) = Inr (is', ls', bs', ms', vs') \<Longrightarrow>
     \<exists>rs. map step js = map Inr rs
       \<and> is' = is @ map fst rs
       \<and> ls' = ls @ map (fst \<circ> snd) rs
       \<and> bs' = bs @ map (fst \<circ> snd \<circ> snd) rs
       \<and> ms' = ms @ map (fst \<circ> snd \<circ> snd \<circ> snd) rs
       \<and> vs' = vs @ map (snd \<circ> snd \<circ> snd \<circ> snd) rs"
proof (induction js arbitrary: "is" ls bs ms vs)
  case Nil
  then show ?case by simp
next
  case (Cons j js)
  from Cons.prems obtain img label bx msk v where
    s: "step j = Inr (img, label, bx, msk, v)" and
    r: "frames_loop step js (is @ [img], ls @ [label], bs @ [bx], ms @ [msk], vs @ [v])
          = Inr (is', ls', bs', ms', vs')"
    by (auto split: sum.splits)
  from Cons.IH [OF r] obtain rs where
    rs: "map step js = map Inr rs"
      "is' = (is @ [img]) @ map fst rs"
      "ls' = (ls @ [label]) @ map (fst \<circ> snd) rs"
      "bs' = (bs @ [bx]) @ map (fst \<circ> snd \<circ> snd) rs"
      "ms' = (ms @ [msk]) @ map (fst \<circ> snd \<circ> snd \<circ> snd) rs"
      "vs' = (vs @ [v]) @ map (snd \<circ> snd \<circ> snd \<circ> snd) rs"
    by blast
  show ?case
    by (rule exI [of _ "(img, label, bx, msk, v) # rs"]) (simp add: s rs)
qed

lemma frames_loop_nth:
  assumes "frames_loop step [0..<n] ([], [], [], [], []) = Inr (imgs, ls, bs, ms, vs)" "j < n"
  shows "step j = Inr (imgs ! j, ls ! j, bs ! j, ms ! j, vs ! j)"
proof -
  from frames_loop_results [OF assms(1)] obtain rs where
    m: "map step [0..<n] = map Inr rs" and
    e: "imgs = map fst rs" "ls = map (fst \<circ> snd) rs" "bs = map (fst \<circ> snd \<circ> snd) rs"
      "ms = map (fst \<circ> snd \<circ> snd \<circ> snd) rs" "vs = map (snd \<circ> snd \<circ> snd \<circ> snd) rs"
    by auto
  from m have l: "length rs = n" by (metis length_map length_upt minus_nat.diff_0)
  from m assms(2) l have "map step [0..<n] ! j = map Inr rs ! j" by simp
  with assms(2) l have "step j = Inr (rs ! j)" by simp
  with e l assms(2) show ?thesis by simp
qed

lemma py_get_nat: "py_get xs (int j) = Inr v \<Longrightarrow> j < length xs \<and> v = xs ! j"
  by (auto simp: py_get_def split: if_splits)

lemma frame_step_cases:
  assumes "frame_step opn dec mdict video frames anno_id sample_indx j
             = Inr (img, label, bx, m, v)"
  obtains frame_name where
    "j < length sample_indx"
    "py_get frames (sample_indx ! j) = Inr frame_name"
    "opn video frame_name = Inr img"
    "anno_loop dec mdict (sample_indx ! j) anno_id (np_zeros (im_h img) (im_w img)) = Inr m"
    "box_and_valid m = Inr (bx, v)"
    "label = 0"
proof -
  from assms obtain fi where fi: "py_get sample_indx (int j) = Inr fi"
    by (cases "py_get sample_indx (int j)") (simp_all add: frame_step_def)
  from py_get_nat [OF fi] have j: "j < length sample_indx" and fi': "fi = sample_indx ! j"
    by simp_all
  from assms fi obtain fn where fn: "py_get frames fi = Inr fn"
    by (cases "py_get frames fi") (simp_all add: frame_step_def)
  from assms fi fn obtain im where im: "opn video fn = Inr im"
    by (cases "opn video fn") (simp_all add: frame_step_def)
  from assms fi fn im obtain acc where
    acc: "anno_loop dec mdict fi anno_id (np_zeros (im_h im) (im_w im)) = Inr acc"
    by (cases "anno_loop dec mdict fi anno_id (np_zeros (im_h im) (im_w im))")
       (simp_all add: frame_step_def)
  from assms fi fn im acc obtain bv where bv: "box_and_valid acc = Inr bv"
    by (cases "box_and_valid acc") (simp_all add: frame_step_def)
  from assms fi fn im acc bv have "img = im" "label = 0" "m = acc" "bv = (bx, v)"
    by (cases bv; simp add: frame_step_def)+
  with that [of fn] j fi' fn im acc bv show thesis by simp
qed

lemma assemble_frame:
  assumes a: "assemble D g idx = Inr ((imgs, tgt), g')" and j: "j < nat (num_frames D)"
  shows "\<exists>m frame_name bx.
      py_get (metas D) idx = Inr m
    \<and> j < length (frames_idx tgt)
    \<and> py_get (meta_frames m) (frames_idx tgt ! j) = Inr frame_name
    \<and> image_open D (meta_video m) frame_name = Inr (imgs ! j)
    \<and> anno_loop (coco_decode D) (mask_dict D) (frames_idx tgt ! j) (meta_anno_id m)
          (np_zeros (im_h (imgs ! j)) (im_w (imgs ! j))) = Inr (masks tgt ! j)
    \<and> has_shape (im_h (imgs ! j)) (im_w (imgs ! j)) (masks tgt ! j)
    \<and> box_and_valid (masks tgt ! j) = Inr (bx, valid tgt ! j)
    \<and> boxes tgt ! j = clamp_box (im_w (last imgs)) (im_h (last imgs)) bx
    \<and> labels tgt ! j = 0"
proof -
  from a obtain m sample_indx ls bs ms vs where
    m: "py_get (metas D) idx = Inr m"
    and "sample_global_frames D g (meta_frame_id m) (int (length (meta_frames m))) (num_frames D)
       = Inr (sample_indx, g')"
    and f: "frames_loop (frame_step (image_open D) (coco_decode D) (mask_dict D) (meta_video m)
        (meta_frames m) (meta_anno_id m) sample_indx) [0..<nat (num_frames D)] ([], [], [], [], [])
       = Inr (imgs, ls, bs, ms, vs)"
    and "imgs \<noteq> []"
    and "torch_stack mask_shape ms = Inr ms"
    and t: "tgt = \<lparr> frames_idx = sample_indx, labels = ls,
             boxes = map (clamp_box (im_w (last imgs)) (im_h (last imgs))) bs,
             masks = ms, valid = vs, caption = clean_caption D (meta_exp m),
             orig_size = (int (im_h (last imgs)), int (im_w (last imgs))),
             size_hw = (int (im_h (last imgs)), int (im_w (last imgs))),
             video_id = meta_video m, exp_id = idx \<rparr>"
    by (rule assemble_cases)
  from frames_loop_lengths [OF f] j have lb: "j < length bs" by simp
  from frames_loop_nth [OF f j] obtain frame_name where
    s: "j < length sample_indx"
      "py_get (meta_frames m) (sample_indx ! j) = Inr frame_name"
      "image_open D (meta_video m) frame_name = Inr (imgs ! j)"
      "anno_loop (coco_decode D) (mask_dict D) (sample_indx ! j) (meta_anno_id m)
         (np_zeros (im_h (imgs ! j)) (im_w (imgs ! j))) = Inr (ms ! j)"
      "box_and_valid (ms ! j) = Inr (bs ! j, vs ! j)"
      "ls ! j = 0"
    by (rule frame_step_cases)
  from anno_loop_shape [OF has_shape_zeros s(4)]
  have sh: "has_shape (im_h (imgs ! j)) (im_w (imgs ! j)) (ms ! j)" .
  show ?thesis
    using m s sh lb unfolding t by auto
qed

lemma torch_stack_shapes:
  assumes "torch_stack shp xs = Inr ys" "i < length xs" "k < length xs"
  shows "shp (xs ! i) = shp (xs ! k)"
proof -
  from assms(1) obtain x rest where xs: "xs = x # rest" and
    a: "list_all (\<lambda>y. shp y = shp x) rest"
    by (auto simp: torch_stack_def split: list.splits if_splits)
  then have "\<forall>y \<in> set xs. shp y = shp x" by (auto simp: list_all_iff)
  with assms(2,3) show ?thesis by (metis nth_mem)
qed

lemma assemble_masks_last:
  assumes a: "assemble D g idx = Inr ((imgs, tgt), g')" and j: "j < nat (num_frames D)"
  shows "mask_shape (masks tgt ! j) = mask_shape (masks tgt ! (nat (num_frames D) - 1))
    \<and> last imgs = imgs ! (nat (num_frames D) - 1)"
proof -
  from a obtain m sample_indx ls bs ms vs where
    "py_get (metas D) idx = Inr m"
    and "sample_global_frames D g (meta_frame_id m) (int (length (meta_frames m))) (num_frames D)
       = Inr (sample_indx, g')"
    and f: "frames_loop (frame_step (image_open D) (coco_decode D) (mask_dict D) (meta_video m)
        (meta_frames m) (meta_anno_id m) sample_indx) [0..<nat (num_frames D)] ([], [], [], [], [])
       = Inr (imgs, ls, bs, ms, vs)"
    and ne: "imgs \<noteq> []"
    and st: "torch_stack mask_shape ms = Inr ms"
    and t: "tgt = \<lparr> frames_idx = sample_indx, labels = ls,
             boxes = map (clamp_box (im_w (last imgs)) (im_h (last imgs))) bs,
             masks = ms, valid = vs, caption = clean_caption D (meta_exp m),
             orig_size = (int (im_h (last imgs)), int (im_w (last imgs))),
             size_hw = (int (im_h (last imgs)), int (im_w (last imgs))),
             video_id = meta_video m, exp_id = idx \<rparr>"
    by (rule assemble_cases)
  from frames_loop_lengths [OF f] have l: "length ms = nat (num_frames D)"
    "length imgs = nat (num_frames D)" by simp_all
  from torch_stack_shapes [OF st, of j "nat (num_frames D) - 1"] l j
  have "mask_shape (ms ! j) = mask_shape (ms ! (nat (num_frames D) - 1))" by simp
  moreover from ne l have "last imgs = imgs ! (nat (num_frames D) - 1)"
    by (simp add: last_conv_nth)
  ultimately show ?thesis by (simp add: t)
qed

lemma has_shape_positive:
  assumes "has_shape h w a" "any_positive a"
  shows "0 < h \<and> 0 < w"
proof -
  from assms(2) obtain r where "r \<in> nonzero_rows a" by (auto simp: any_positive_rows)
  then obtain c where "r < length a" "c < length (a ! r)" by (auto simp: nonzero_rows_def)
  with assms(1) show ?thesis by (auto simp: has_shape_def list_all_length)
qed

lemma assemble_box:
  assumes a: "assemble D g idx = Inr ((imgs, tgt), g')" and j: "j < nat (num_frames D)"
  shows "(any_positive (masks tgt ! j) \<longrightarrow>
            boxes tgt ! j = tight_box (masks tgt ! j) \<and> valid tgt ! j = 1)
       \<and> (\<not> any_positive (masks tgt ! j) \<longrightarrow>
            boxes tgt ! j = (0, 0, 0, 0) \<and> valid tgt ! j = 0)"
proof -
  let ?n = "nat (num_frames D) - 1"
  from j have n: "?n < nat (num_frames D)" by simp
  from assemble_frame [OF a j] obtain bx where
    sh: "has_shape (im_h (imgs ! j)) (im_w (imgs ! j)) (masks tgt ! j)" and
    bv: "box_and_valid (masks tgt ! j) = Inr (bx, valid tgt ! j)" and
    bx: "boxes tgt ! j = clamp_box (im_w (last imgs)) (im_h (last imgs)) bx"
    by blast
  from assemble_frame [OF a n] have
    shn: "has_shape (im_h (imgs ! ?n)) (im_w (imgs ! ?n)) (masks tgt ! ?n)"
    by blast
  from assemble_masks_last [OF a j] have
    eq: "mask_shape (masks tgt ! j) = mask_shape (masks tgt ! ?n)" and
    la: "last imgs = imgs ! ?n"
    by simp_all
  show ?thesis
  proof (cases "any_positive (masks tgt ! j)")
    case True
    from has_shape_positive [OF sh True] have p: "0 < im_h (imgs ! j)" "0 < im_w (imgs ! j)"
      by simp_all
    from eq sh p have "nrows (masks tgt ! ?n) = im_h (imgs ! j)"
      "ncols (masks tgt ! ?n) = im_w (imgs ! j)"
      by (simp_all add: mask_shape_def has_shape_nrows has_shape_ncols)
    moreover from this(1) shn p(1) have "nrows (masks tgt ! ?n) = im_h (imgs ! ?n)"
      "ncols (masks tgt ! ?n) = im_w (imgs ! ?n)"
      by (simp_all add: has_shape_nrows has_shape_ncols)
    ultimately have "im_h (imgs ! j) = im_h (last imgs)" "im_w (imgs ! j) = im_w (last imgs)"
      by (simp_all add: la)
    with sh have "has_shape (im_h (last imgs)) (im_w (last imgs)) (masks tgt ! j)" by simp
    from bv sh True have "bx = tight_box (masks tgt ! j)" "valid tgt ! j = 1"
      by (simp_all add: box_and_valid_eq)
    with clamp_tight_box [OF \<open>has_shape (im_h (last imgs)) (im_w (last imgs)) (masks tgt ! j)\<close> True]
      bx True show ?thesis by simp
  next
    case False
    with bv sh have "bx = (0, 0, 0, 0)" "valid tgt ! j = 0"
      by (simp_all add: box_and_valid_eq)
    with bx False show ?thesis by (simp add: clamp_box_zero)
  qed
qed

lemma sum_list_member_le:
  fixes f :: "'a \<Rightarrow> nat"
  shows "x \<in> set xs \<Longrightarrow> f x \<le> sum_list (map f xs)"
  by (induction xs) auto

lemma any_positive_nth:
  "has_shape h w a \<Longrightarrow> any_positive a \<longleftrightarrow> (\<exists>r < h. \<exists>c < w. 0 < a ! r ! c)"
  by (auto simp: any_positive_def list_ex_length has_shape_def list_all_length)

lemma assemble_nat_lengths:
  assumes "assemble D g idx = Inr ((imgs, tgt), g')"
  shows "length (valid tgt) = nat (num_frames D)" "length (boxes tgt) = nat (num_frames D)"
    "length (masks tgt) = nat (num_frames D)" "length imgs = nat (num_frames D)"
  using assemble_lengths [OF assms] by auto

lemma assemble_all_null:
  assumes a: "assemble D g idx = Inr ((imgs, tgt), g')" and j: "j < nat (num_frames D)"
    and m: "py_get (metas D) idx = Inr m"
    and n: "\<forall>x \<in> set (meta_anno_id m). \<exists>pf. mask_dict D x = Some pf
              \<and> py_get pf (frames_idx tgt ! j) = Inr None"
  shows "masks tgt ! j = np_zeros (im_h (imgs ! j)) (im_w (imgs ! j))
    \<and> \<not> any_positive (masks tgt ! j)"
proof -
  from assemble_frame [OF a j] m have
    "anno_loop (coco_decode D) (mask_dict D) (frames_idx tgt ! j) (meta_anno_id m)
          (np_zeros (im_h (imgs ! j)) (im_w (imgs ! j))) = Inr (masks tgt ! j)"
    by auto
  with anno_loop_all_null [OF n] have "masks tgt ! j = np_zeros (im_h (imgs ! j)) (im_w (imgs ! j))"
    by simp
  moreover have "\<not> any_positive (np_zeros h w)" for h w
    by (auto simp: any_positive_def np_zeros_def list_ex_iff)
  ultimately show ?thesis by simp
qed

lemma assemble_some_present:
  assumes a: "assemble D g idx = Inr ((imgs, tgt), g')" and j: "j < nat (num_frames D)"
    and m: "py_get (metas D) idx = Inr m"
    and sh: "\<forall>x \<in> set (meta_anno_id m). \<forall>pf e. mask_dict D x = Some pf \<longrightarrow>
              py_get pf (frames_idx tgt ! j) = Inr (Some e) \<longrightarrow>
              has_shape (im_h (imgs ! j)) (im_w (imgs ! j)) (coco_decode D e)"
    and p: "\<exists>x \<in> set (meta_anno_id m). \<exists>pf e. mask_dict D x = Some pf
              \<and> py_get pf (frames_idx tgt ! j) = Inr (Some e) \<and> any_positive (coco_decode D e)"
  shows "any_positive (masks tgt ! j)"
proof -
  let ?h = "im_h (imgs ! j)" and ?w = "im_w (imgs ! j)" and ?fi = "frames_idx tgt ! j"
  from assemble_frame [OF a j] m have
    l: "anno_loop (coco_decode D) (mask_dict D) ?fi (meta_anno_id m) (np_zeros ?h ?w)
          = Inr (masks tgt ! j)"
    and s: "has_shape ?h ?w (masks tgt ! j)"
    by auto
  from p obtain x pf e where x: "x \<in> set (meta_anno_id m)" "mask_dict D x = Some pf"
    "py_get pf ?fi = Inr (Some e)" "any_positive (coco_decode D e)"
    by blast
  with sh have "has_shape ?h ?w (coco_decode D e)" by blast
  with x(4) obtain r c where rc: "r < ?h" "c < ?w" "0 < coco_decode D e ! r ! c"
    by (auto simp: any_positive_nth)
  let ?f = "\<lambda>x. case mask_dict D x of None \<Rightarrow> 0
     | Some per_frame \<Rightarrow> (case py_get per_frame ?fi of Inr (Some frm_anno) \<Rightarrow> coco_decode D frm_anno ! r ! c
                          | _ \<Rightarrow> 0)"
  have "?f x \<le> sum_list (map ?f (meta_anno_id m))"
    using x(1) by (rule sum_list_member_le)
  moreover have "?f x = coco_decode D e ! r ! c" using x by simp
  ultimately have "0 < coverage (coco_decode D) (mask_dict D) ?fi (meta_anno_id m) r c"
    using rc(3) by (simp add: coverage_def)
  with anno_loop_sum [OF has_shape_zeros sh l rc(1,2)] have "0 < masks tgt ! j ! r ! c" by simp
  with rc s show ?thesis by (auto simp: any_positive_nth)
qed

text \<open>
  Claim C3. At every position of the sample that the builder assembles: when the
  accumulated mask of the frame has a positive pixel, the box is the tight box of its nonzero
  entries, \<open>(x1, y1, x2, y2)\<close> with the least and greatest nonzero column and row, and the
  validity flag is 1; otherwise the box is \<open>(0, 0, 0, 0)\<close> and the flag is 0. So the flags
  are all 1 when every frame has a non-empty mask, in particular when at every sampled frame
  some annotation id has an entry that decodes to a non-empty mask of the frame's shape; and
  the flags are all 0, with all boxes \<open>(0, 0, 0, 0)\<close>, when the masks are empty at every
  sampled frame, in particular when every entry at every sampled frame is \<open>null\<close>.
\<close>

theorem boxes_and_valid:
  assumes "assemble D g idx = Inr ((imgs, tgt), g')"
  shows "(\<forall>j < nat (num_frames D).
           (any_positive (masks tgt ! j) \<longrightarrow>
              boxes tgt ! j = tight_box (masks tgt ! j) \<and> valid tgt ! j = 1)
         \<and> (\<not> any_positive (masks tgt ! j) \<longrightarrow>
              boxes tgt ! j = (0, 0, 0, 0) \<and> valid tgt ! j = 0))
    \<and> ((\<forall>j < nat (num_frames D). any_positive (masks tgt ! j)) \<longrightarrow>
          valid tgt = replicate (nat (num_frames D)) 1)
    \<and> ((\<forall>j < nat (num_frames D). \<not> any_positive (masks tgt ! j)) \<longrightarrow>
          valid tgt = replicate (nat (num_frames D)) 0
          \<and> boxes tgt = replicate (nat (num_frames D)) (0, 0, 0, 0))
    \<and> (\<forall>m. py_get (metas D) idx = Inr m
          \<and> (\<forall>j < nat (num_frames D). \<forall>x \<in> set (meta_anno_id m).
                \<forall>pf e. mask_dict D x = Some pf \<longrightarrow>
                  py_get pf (frames_idx tgt ! j) = Inr (Some e) \<longrightarrow>
                  has_shape (im_h (imgs ! j)) (im_w (imgs ! j)) (coco_decode D e))
          \<and> (\<forall>j < nat (num_frames D). \<exists>x \<in> set (meta_anno_id m).
                \<exists>pf e. mask_dict D x = Some pf
                  \<and> py_get pf (frames_idx tgt ! j) = Inr (Some e)
                  \<and> any_positive (coco_decode D e))
          \<longrightarrow> valid tgt = replicate (nat (num_frames D)) 1)
    \<and> (\<forall>m. py_get (metas D) idx = Inr m
          \<and> (\<forall>j < nat (num_frames D). \<forall>x \<in> set (meta_anno_id m).
                \<exists>pf. mask_dict D x = Some pf \<and> py_get pf (frames_idx tgt ! j) = Inr None)
          \<longrightarrow> valid tgt = replicate (nat (num_frames D)) 0
            \<and> boxes tgt = replicate (nat (num_frames D)) (0, 0, 0, 0))"
proof -
  let ?n = "nat (num_frames D)"
  note len = assemble_nat_lengths [OF assms]
  have each: "\<forall>j < ?n.
           (any_positive (masks tgt ! j) \<longrightarrow>
              boxes tgt ! j = tight_box (masks tgt ! j) \<and> valid tgt ! j = 1)
         \<and> (\<not> any_positive (masks tgt ! j) \<longrightarrow>
              boxes tgt ! j = (0, 0, 0, 0) \<and> valid tgt ! j = 0)"
    using assemble_box [OF assms] by blast
  have ones: "valid tgt = replicate ?n 1" if "\<forall>j < ?n. any_positive (masks tgt ! j)"
    using that each len(1) by (intro nth_equalityI) auto
  have zeros: "valid tgt = replicate ?n 0 \<and> boxes tgt = replicate ?n (0, 0, 0, 0)"
    if "\<forall>j < ?n. \<not> any_positive (masks tgt ! j)"
  proof
    show "valid tgt = replicate ?n 0"
      using that each len(1) by (intro nth_equalityI) auto
    show "boxes tgt = replicate ?n (0, 0, 0, 0)"
      using that each len(2) by (intro nth_equalityI) auto
  qed
  have present: "valid tgt = replicate ?n 1"
    if "py_get (metas D) idx = Inr m
          \<and> (\<forall>j < ?n. \<forall>x \<in> set (meta_anno_id m).
                \<forall>pf e. mask_dict D x = Some pf \<longrightarrow>
                  py_get pf (frames_idx tgt ! j) = Inr (Some e) \<longrightarrow>
                  has_shape (im_h (imgs ! j)) (im_w (imgs ! j)) (coco_decode D e))
          \<and> (\<forall>j < ?n. \<exists>x \<in> set (meta_anno_id m).
                \<exists>pf e. mask_dict D x = Some pf
                  \<and> py_get pf (frames_idx tgt ! j) = Inr (Some e)
                  \<and> any_positive (coco_decode D e))" for m
  proof (rule ones, intro allI impI)
    fix j assume j: "j < ?n"
    from that j show "any_positive (masks tgt ! j)"
      by (intro assemble_some_present [OF assms j, of m]) blast+
  qed
  have absent: "valid tgt = replicate ?n 0 \<and> boxes tgt = replicate ?n (0, 0, 0, 0)"
    if "py_get (metas D) idx = Inr m
          \<and> (\<forall>j < ?n. \<forall>x \<in> set (meta_anno_id m).
                \<exists>pf. mask_dict D x = Some pf \<and> py_get pf (frames_idx tgt ! j) = Inr None)" for m
  proof (rule zeros, intro allI impI)
    fix j assume j: "j < ?n"
    from that j assemble_all_null [OF assms j, of m] show "\<not> any_positive (masks tgt ! j)"
      by blast
  qed
  from each ones zeros present absent show ?thesis by blast
qed

theorem boxes_and_valid_witness:
  "assemble example_dataset (\<lambda>_. 1) 1 = Inr ((example_images, example_target_1), \<lambda>_. 1)
   \<and> any_positive (masks example_target_1 ! 0)
   \<and> boxes example_target_1 ! 0 = tight_box (masks example_target_1 ! 0)
   \<and> boxes example_target_1 ! 0 = (1, 0, 2, 1)
   \<and> valid example_target_1 ! 0 = 1
   \<and> \<not> any_positive (masks example_target_1 ! 1)
   \<and> boxes example_target_1 ! 1 = (0, 0, 0, 0)
   \<and> valid example_target_1 ! 1 = 0"
proof -
  have a: "assemble example_dataset (\<lambda>_. 1) 1 = Inr ((example_images, example_target_1), \<lambda>_. 1)"
    by (rule assemble_example_1)
  have p: "any_positive (masks example_target_1 ! 0)"
    by (simp add: example_target_1_def any_positive_def)
  have q: "\<not> any_positive (masks example_target_1 ! 1)"
    by (simp add: example_target_1_def any_positive_def)
  have n: "(0::nat) < nat (num_frames example_dataset)" "(1::nat) < nat (num_frames example_dataset)"
    by (simp_all add: example_sel)
  have b: "boxes example_target_1 ! 0 = (1, 0, 2, 1)" by (simp add: example_target_1_def)
  from boxes_and_valid [OF a] n p q
  have "boxes example_target_1 ! 0 = tight_box (masks example_target_1 ! 0)
    \<and> valid example_target_1 ! 0 = 1
    \<and> boxes example_target_1 ! 1 = (0, 0, 0, 0) \<and> valid example_target_1 ! 1 = 0"
    by blast
  with a p q b show ?thesis by blast
qed

lemma boxes_in_range:
  "(assemble D g idx = Inr ((imgs, tgt), g') \<longrightarrow>
      orig_size tgt = (int (im_h (last imgs)), int (im_w (last imgs)))
      \<and> (\<forall>j < nat (num_frames D). \<forall>x1 y1 x2 y2. boxes tgt ! j = (x1, y1, x2, y2) \<longrightarrow>
            0 \<le> x1 \<and> x1 \<le> int (im_w (last imgs)) \<and> 0 \<le> x2 \<and> x2 \<le> int (im_w (last imgs))
          \<and> 0 \<le> y1 \<and> y1 \<le> int (im_h (last imgs)) \<and> 0 \<le> y2 \<and> y2 \<le> int (im_h (last imgs))))
   \<and> (clamp_box w h b = (x1', y1', x2', y2') \<longrightarrow>
        0 \<le> x1' \<and> x1' \<le> int w \<and> 0 \<le> x2' \<and> x2' \<le> int w
      \<and> 0 \<le> y1' \<and> y1' \<le> int h \<and> 0 \<le> y2' \<and> y2' \<le> int h)
   \<and> clamp_box w h (a1, b1, a2, b2)
       = (min (max a1 0) (int w), min (max b1 0) (int h),
          min (max a2 0) (int w), min (max b2 0) (int h))"
proof (intro conjI)
  show "assemble D g idx = Inr ((imgs, tgt), g') \<longrightarrow>
      orig_size tgt = (int (im_h (last imgs)), int (im_w (last imgs)))
      \<and> (\<forall>j < nat (num_frames D). \<forall>x1 y1 x2 y2. boxes tgt ! j = (x1, y1, x2, y2) \<longrightarrow>
            0 \<le> x1 \<and> x1 \<le> int (im_w (last imgs)) \<and> 0 \<le> x2 \<and> x2 \<le> int (im_w (last imgs))
          \<and> 0 \<le> y1 \<and> y1 \<le> int (im_h (last imgs)) \<and> 0 \<le> y2 \<and> y2 \<le> int (im_h (last imgs)))"
  proof (rule impI, rule conjI)
    assume a: "assemble D g idx = Inr ((imgs, tgt), g')"
    from a obtain m sample_indx ls bs ms vs where
      "py_get (metas D) idx = Inr m"
      and "sample_global_frames D g (meta_frame_id m) (int (length (meta_frames m))) (num_frames D)
         = Inr (sample_indx, g')"
      and "frames_loop (frame_step (image_open D) (coco_decode D) (mask_dict D) (meta_video m)
          (meta_frames m) (meta_anno_id m) sample_indx) [0..<nat (num_frames D)] ([], [], [], [], [])
         = Inr (imgs, ls, bs, ms, vs)"
      and "imgs \<noteq> []"
      and "torch_stack mask_shape ms = Inr ms"
      and t: "tgt = \<lparr> frames_idx = sample_indx, labels = ls,
               boxes = map (clamp_box (im_w (last imgs)) (im_h (last imgs))) bs,
               masks = ms, valid = vs, caption = clean_caption D (meta_exp m),
               orig_size = (int (im_h (last imgs)), int (im_w (last imgs))),
               size_hw = (int (im_h (last imgs)), int (im_w (last imgs))),
               video_id = meta_video m, exp_id = idx \<rparr>"
      by (rule assemble_cases)
    show "orig_size tgt = (int (im_h (last imgs)), int (im_w (last imgs)))" by (simp add: t)
    show "\<forall>j < nat (num_frames D). \<forall>x1 y1 x2 y2. boxes tgt ! j = (x1, y1, x2, y2) \<longrightarrow>
            0 \<le> x1 \<and> x1 \<le> int (im_w (last imgs)) \<and> 0 \<le> x2 \<and> x2 \<le> int (im_w (last imgs))
          \<and> 0 \<le> y1 \<and> y1 \<le> int (im_h (last imgs)) \<and> 0 \<le> y2 \<and> y2 \<le> int (im_h (last imgs))"
    proof (intro allI impI)
      fix j x1 y1 x2 y2
      assume j: "j < nat (num_frames D)" and b: "boxes tgt ! j = (x1, y1, x2, y2)"
      from assemble_frame [OF a j] obtain bx where
        "boxes tgt ! j = clamp_box (im_w (last imgs)) (im_h (last imgs)) bx" by blast
      with b have "clamp_box (im_w (last imgs)) (im_h (last imgs)) bx = (x1, y1, x2, y2)" by simp
      then show "0 \<le> x1 \<and> x1 \<le> int (im_w (last imgs)) \<and> 0 \<le> x2 \<and> x2 \<le> int (im_w (last imgs))
          \<and> 0 \<le> y1 \<and> y1 \<le> int (im_h (last imgs)) \<and> 0 \<le> y2 \<and> y2 \<le> int (im_h (last imgs))"
        by (rule clamp_box_range)
    qed
  qed
  show "clamp_box w h b = (x1', y1', x2', y2') \<longrightarrow>
        0 \<le> x1' \<and> x1' \<le> int w \<and> 0 \<le> x2' \<and> x2' \<le> int w
      \<and> 0 \<le> y1' \<and> y1' \<le> int h \<and> 0 \<le> y2' \<and> y2' \<le> int h"
    using clamp_box_range by blast
  show "clamp_box w h (a1, b1, a2, b2)
       = (min (max a1 0) (int w), min (max b1 0) (int h),
          min (max a2 0) (int w), min (max b2 0) (int h))"
    by (simp add: clamp_box_def clamp_def)
qed

lemma make_target_boxes:
  assumes "make_target m exp idx sample_indx (imgs, ls, bs, ms, vs) = Inr (imgs', tgt)"
  shows "boxes tgt = map (clamp_box (im_w (last imgs)) (im_h (last imgs))) bs
    \<and> orig_size tgt = (int (im_h (last imgs)), int (im_w (last imgs)))"
proof -
  from assms have ne: "imgs \<noteq> []"
    unfolding make_target_def by (simp split: if_splits)
  from assms ne obtain ms' where "torch_stack mask_shape ms = Inr ms'"
    unfolding make_target_def by (cases "torch_stack mask_shape ms") (simp_all add: Let_def)
  with assms ne show ?thesis
    unfolding make_target_def by (auto simp: Let_def)
qed

lemma assemble_make_target:
  assumes "assemble D g idx = Inr ((imgs, tgt), g')"
  shows "\<exists>m sample_indx ls bs ms vs.
      py_get (metas D) idx = Inr m
    \<and> frames_loop (frame_step (image_open D) (coco_decode D) (mask_dict D) (meta_video m)
          (meta_frames m) (meta_anno_id m) sample_indx) [0..<nat (num_frames D)]
          ([], [], [], [], []) = Inr (imgs, ls, bs, ms, vs)
    \<and> make_target m (clean_caption D (meta_exp m)) idx sample_indx (imgs, ls, bs, ms, vs)
        = Inr (imgs, tgt)"
proof -
  from assms obtain m sample_indx ls bs ms vs where
    m: "py_get (metas D) idx = Inr m"
    and "sample_global_frames D g (meta_frame_id m) (int (length (meta_frames m))) (num_frames D)
       = Inr (sample_indx, g')"
    and f: "frames_loop (frame_step (image_open D) (coco_decode D) (mask_dict D) (meta_video m)
        (meta_frames m) (meta_anno_id m) sample_indx) [0..<nat (num_frames D)] ([], [], [], [], [])
       = Inr (imgs, ls, bs, ms, vs)"
    and ne: "imgs \<noteq> []"
    and st: "torch_stack mask_shape ms = Inr ms"
    and t: "tgt = \<lparr> frames_idx = sample_indx, labels = ls,
             boxes = map (clamp_box (im_w (last imgs)) (im_h (last imgs))) bs,
             masks = ms, valid = vs, caption = clean_caption D (meta_exp m),
             orig_size = (int (im_h (last imgs)), int (im_w (last imgs))),
             size_hw = (int (im_h (last imgs)), int (im_w (last imgs))),
             video_id = meta_video m, exp_id = idx \<rparr>"
    by (rule assemble_cases)
  have "make_target m (clean_caption D (meta_exp m)) idx sample_indx (imgs, ls, bs, ms, vs)
        = Inr (imgs, tgt)"
    unfolding make_target_def using ne st t by (simp add: Let_def)
  with m f show ?thesis by blast
qed

text \<open>
  Claim C7. The builder clamps the boxes before the augmentation: the boxes of the target
  are the boxes of the loop over the positions, whatever they are, each coordinate cut to
  \<open>[0, width]\<close> (x) or \<open>[0, height]\<close> (y) of the image of the last position, whose size
  is also \<open>orig_size\<close>; the target of the assembled sample is built that way, so every box
  of it lies in that rectangle. The clamp brings any box into the rectangle, coordinate by
  coordinate.
\<close>

theorem boxes_clamped:
  "(make_target m exp idx sample_indx (imgs0, ls, bs, ms, vs) = Inr (imgs1, tgt0) \<longrightarrow>
      boxes tgt0 = map (clamp_box (im_w (last imgs0)) (im_h (last imgs0))) bs
      \<and> (\<forall>j < length bs. \<forall>c1 d1 c2 d2. bs ! j = (c1, d1, c2, d2) \<longrightarrow>
            boxes tgt0 ! j
              = (min (max c1 0) (int (im_w (last imgs0))), min (max d1 0) (int (im_h (last imgs0))),
                 min (max c2 0) (int (im_w (last imgs0))), min (max d2 0) (int (im_h (last imgs0))))))
   \<and> (assemble D g idx = Inr ((imgs, tgt), g') \<longrightarrow>
        (\<exists>m sample_indx ls bs ms vs.
            py_get (metas D) idx = Inr m
          \<and> frames_loop (frame_step (image_open D) (coco_decode D) (mask_dict D) (meta_video m)
                (meta_frames m) (meta_anno_id m) sample_indx) [0..<nat (num_frames D)]
                ([], [], [], [], []) = Inr (imgs, ls, bs, ms, vs)
          \<and> make_target m (clean_caption D (meta_exp m)) idx sample_indx (imgs, ls, bs, ms, vs)
              = Inr (imgs, tgt)))
   \<and> (assemble D g idx = Inr ((imgs, tgt), g') \<longrightarrow>
      orig_size tgt = (int (im_h (last imgs)), int (im_w (last imgs)))
      \<and> (\<forall>j < nat (num_frames D). \<forall>x1 y1 x2 y2. boxes tgt ! j = (x1, y1, x2, y2) \<longrightarrow>
            0 \<le> x1 \<and> x1 \<le> int (im_w (last imgs)) \<and> 0 \<le> x2 \<and> x2 \<le> int (im_w (last imgs))
          \<and> 0 \<le> y1 \<and> y1 \<le> int (im_h (last imgs)) \<and> 0 \<le> y2 \<and> y2 \<le> int (im_h (last imgs))))
   \<and> (clamp_box w h b = (x1', y1', x2', y2') \<longrightarrow>
        0 \<le> x1' \<and> x1' \<le> int w \<and> 0 \<le> x2' \<and> x2' \<le> int w
      \<and> 0 \<le> y1' \<and> y1' \<le> int h \<and> 0 \<le> y2' \<and> y2' \<le> int h)
   \<and> clamp_box w h (a1, b1, a2, b2)
       = (min (max a1 0) (int w), min (max b1 0) (int h),
          min (max a2 0) (int w), min (max b2 0) (int h))"
proof -
  have n1: "make_target m exp idx sample_indx (imgs0, ls, bs, ms, vs) = Inr (imgs1, tgt0) \<longrightarrow>
      boxes tgt0 = map (clamp_box (im_w (last imgs0)) (im_h (last imgs0))) bs
      \<and> (\<forall>j < length bs. \<forall>c1 d1 c2 d2. bs ! j = (c1, d1, c2, d2) \<longrightarrow>
            boxes tgt0 ! j
              = (min (max c1 0) (int (im_w (last imgs0))), min (max d1 0) (int (im_h (last imgs0))),
                 min (max c2 0) (int (im_w (last imgs0))), min (max d2 0) (int (im_h (last imgs0)))))"
  proof
    assume "make_target m exp idx sample_indx (imgs0, ls, bs, ms, vs) = Inr (imgs1, tgt0)"
    from make_target_boxes [OF this]
    have b: "boxes tgt0 = map (clamp_box (im_w (last imgs0)) (im_h (last imgs0))) bs" by simp
    show "boxes tgt0 = map (clamp_box (im_w (last imgs0)) (im_h (last imgs0))) bs
      \<and> (\<forall>j < length bs. \<forall>c1 d1 c2 d2. bs ! j = (c1, d1, c2, d2) \<longrightarrow>
            boxes tgt0 ! j
              = (min (max c1 0) (int (im_w (last imgs0))), min (max d1 0) (int (im_h (last imgs0))),
                 min (max c2 0) (int (im_w (last imgs0))), min (max d2 0) (int (im_h (last imgs0)))))"
      unfolding b by (simp add: clamp_box_def clamp_def)
  qed
  have n2: "assemble D g idx = Inr ((imgs, tgt), g') \<longrightarrow>
        (\<exists>m sample_indx ls bs ms vs.
            py_get (metas D) idx = Inr m
          \<and> frames_loop (frame_step (image_open D) (coco_decode D) (mask_dict D) (meta_video m)
                (meta_frames m) (meta_anno_id m) sample_indx) [0..<nat (num_frames D)]
                ([], [], [], [], []) = Inr (imgs, ls, bs, ms, vs)
          \<and> make_target m (clean_caption D (meta_exp m)) idx sample_indx (imgs, ls, bs, ms, vs)
              = Inr (imgs, tgt))"
    using assemble_make_target by blast
  from n1 n2 boxes_in_range [of D g idx imgs tgt g' w h b x1' y1' x2' y2' a1 b1 a2 b2]
  show ?thesis by blast
qed

theorem boxes_clamped_witness:
  "make_target
     \<lparr>meta_video = ''v1'', meta_exp = ''A  Person'', meta_obj_id = [1], meta_anno_id = [''1''],
      meta_frames = [''f0'', ''f1'', ''f2'', ''f3''], meta_frame_id = 2, meta_category = 0\<rparr>
     ''a person'' 1 [2, 3]
     (example_images, [0, 0], [(- 1, 5, 7, 1), (1, 0, 2, 1)],
      [[[0, 1, 1], [0, 0, 1]], [[0, 0, 0], [0, 0, 0]]], [1, 0])
     = Inr (example_images,
         \<lparr>frames_idx = [2, 3], labels = [0, 0], boxes = [(0, 2, 3, 1), (1, 0, 2, 1)],
          masks = [[[0, 1, 1], [0, 0, 1]], [[0, 0, 0], [0, 0, 0]]],
          valid = [1, 0], caption = ''a person'', orig_size = (2, 3),
          size_hw = (2, 3), video_id = ''v1'', exp_id = 1\<rparr>)
   \<and> map (clamp_box (im_w (last example_images)) (im_h (last example_images)))
         [(- 1, 5, 7, 1), (1, 0, 2, 1)] = [(0, 2, 3, 1), (1, 0, 2, 1)]
   \<and> assemble example_dataset (\<lambda>_. 1) 1 = Inr ((example_images, example_target_1), \<lambda>_. 1)
   \<and> orig_size example_target_1 = (2, 3)
   \<and> boxes example_target_1 ! 0 = (1, 0, 2, 1)
   \<and> (0::int) \<le> 1 \<and> (1::int) \<le> int (im_w (last example_images))
   \<and> (2::int) \<le> int (im_w (last example_images))
   \<and> (1::int) \<le> int (im_h (last example_images))
   \<and> clamp_box 3 2 (- 1, 5, 7, 1) = (0, 2, 3, 1)"
proof -
  let ?m = "\<lparr>meta_video = ''v1'', meta_exp = ''A  Person'', meta_obj_id = [1],
      meta_anno_id = [''1''], meta_frames = [''f0'', ''f1'', ''f2'', ''f3''],
      meta_frame_id = 2, meta_category = 0\<rparr>"
  let ?t = "\<lparr>frames_idx = [2, 3], labels = [0, 0], boxes = [(0, 2, 3, 1), (1, 0, 2, 1)],
          masks = [[[0, 1, 1], [0, 0, 1]], [[0, 0, 0], [0, 0, 0]]],
          valid = [1, 0], caption = ''a person'', orig_size = (2, 3),
          size_hw = (2, 3), video_id = ''v1'', exp_id = 1\<rparr>"
  have mt: "make_target ?m ''a person'' 1 [2, 3]
     (example_images, [0, 0], [(- 1, 5, 7, 1), (1, 0, 2, 1)],
      [[[0, 1, 1], [0, 0, 1]], [[0, 0, 0], [0, 0, 0]]], [1, 0]) = Inr (example_images, ?t)"
    by (simp add: make_target_def example_images_def torch_stack_def mask_shape_def nrows_def
        ncols_def clamp_box_def clamp_def)
  have a: "assemble example_dataset (\<lambda>_. 1) 1 = Inr ((example_images, example_target_1), \<lambda>_. 1)"
    by (rule assemble_example_1)
  have n: "(0::nat) < nat (num_frames example_dataset)" by (simp add: example_sel)
  have b: "boxes example_target_1 ! 0 = (1, 0, 2, 1)" by (simp add: example_target_1_def)
  have l: "int (im_h (last example_images)) = 2" "int (im_w (last example_images)) = 3"
    by (simp_all add: example_images_def)
  note t = boxes_clamped [where m = ?m and exp = "''a person''" and idx = 1
      and sample_indx = "[2, 3]" and ?imgs0.0 = example_images and ls = "[0, 0]"
      and bs = "[(- 1, 5, 7, 1), (1, 0, 2, 1)]"
      and ms = "[[[0, 1, 1], [0, 0, 1]], [[0, 0, 0], [0, 0, 0]]]" and vs = "[1, 0]"
      and ?imgs1.0 = example_images and ?tgt0.0 = ?t and D = example_dataset and g = "\<lambda>_. 1"
      and imgs = example_images and tgt = example_target_1 and g' = "\<lambda>_. 1"
      and w = 3 and h = 2 and b = "(- 1, 5, 7, 1)" and x1' = 0 and y1' = 2 and x2' = 3
      and y2' = 1 and ?a1.0 = "- 1" and ?b1.0 = 5 and ?a2.0 = 7 and ?b2.0 = 1]
  from t mt have c: "map (clamp_box (im_w (last example_images)) (im_h (last example_images)))
         [(- 1, 5, 7, 1), (1, 0, 2, 1)] = [(0, 2, 3, 1), (1, 0, 2, 1)]"
    by simp
  from t a have o: "orig_size example_target_1 = (2, 3)" by (simp add: l)
  from t a n b have r: "(1::int) \<le> int (im_w (last example_images))
    \<and> (2::int) \<le> int (im_w (last example_images)) \<and> (1::int) \<le> int (im_h (last example_images))"
    by blast
  from t have k: "clamp_box 3 2 (- 1, 5, 7, 1) = (0, 2, 3, 1)" by simp
  from mt c a o b r k show ?thesis by simp
qed




lemma example_overlap_sel:
  "metas example_overlap_dataset =
     [\<lparr>meta_video = ''v1'', meta_exp = ''Two cats'', meta_obj_id = [1, 2],
       meta_anno_id = [''1'', ''2''], meta_frames = [''f0'', ''f1'', ''f2'', ''f3''],
       meta_frame_id = 2, meta_category = 0\<rparr>]"
  "num_frames example_overlap_dataset = 2"
  "coco_decode example_overlap_dataset rle = rle"
  "sample_global_frames example_overlap_dataset g anchor vid_len T
     = Inr (map (\<lambda>k. min (anchor + int k) (vid_len - 1)) [0..<nat T], g)"
  "mask_dict example_overlap_dataset
     = [''1'' \<mapsto> [None, None, Some [[0, 1, 1], [0, 0, 1]], None],
        ''2'' \<mapsto> [None, None, Some [[0, 0, 1], [0, 0, 1]], Some [[1, 0, 0], [0, 0, 0]]]]"
  by (simp_all add: example_overlap_dataset_def example_dataset_def)

lemma clean_caption_overlap: "clean_caption example_overlap_dataset ''Two cats'' = ''two cats''"
  by code_simp

lemma example_overlap_frames_loop:
  "frames_loop (frame_step (image_open example_overlap_dataset) (coco_decode example_overlap_dataset)
       (mask_dict example_overlap_dataset) ''v1'' [''f0'', ''f1'', ''f2'', ''f3''] [''1'', ''2''] [2, 3])
     [0, Suc 0] ([], [], [], [], [])
   = Inr ([\<lparr>im_w = 3, im_h = 2\<rparr>, \<lparr>im_w = 3, im_h = 2\<rparr>], [0, 0], [(1, 0, 2, 1), (0, 0, 0, 0)],
          [[[0, 1, 2], [0, 0, 2]], [[1, 0, 0], [0, 0, 0]]], [1, 1])"
  by code_simp

lemma assemble_example_overlap:
  "assemble example_overlap_dataset g 0 = Inr ((example_images, example_overlap_target), g)"
  unfolding assemble_def make_target_def example_images_def example_overlap_target_def
  by (simp add: example_overlap_sel(1,2,4) py_get_def upt_2
      example_overlap_frames_loop
      torch_stack_def mask_shape_def nrows_def ncols_def clamp_box_def clamp_def
      clean_caption_overlap del: frames_loop.simps)

text \<open>
  Claim C6, as stated, fails: with two annotation ids whose decoded masks both cover the
  pixel in row 0 and column 2 of frame 2, the stored mask has the value 2 there.
\<close>

theorem mask_not_binary:
  "assemble example_overlap_dataset id 0 = Inr ((example_images, example_overlap_target), id)
   \<and> masks example_overlap_target ! 0 ! 0 ! 2 = 2"
  by (simp add: assemble_example_overlap) (simp add: example_overlap_target_def)

lemma sum_list_le_length:
  fixes f :: "'a \<Rightarrow> nat"
  shows "\<forall>x \<in> set xs. f x \<le> 1 \<Longrightarrow> sum_list (map f xs) \<le> length xs"
  by (induction xs) auto

lemma coverage_le_length:
  assumes "\<forall>x \<in> set xs. \<forall>pf e. mdict x = Some pf \<longrightarrow> py_get pf fi = Inr (Some e) \<longrightarrow>
             dec e ! r ! c \<le> 1"
  shows "coverage dec mdict fi xs r c \<le> length xs"
  unfolding coverage_def
proof (rule sum_list_le_length, rule ballI)
  fix x assume x: "x \<in> set xs"
  show "(case mdict x of None \<Rightarrow> 0
         | Some per_frame \<Rightarrow> (case py_get per_frame fi of Inr (Some frm_anno) \<Rightarrow> dec frm_anno ! r ! c
                               | _ \<Rightarrow> 0)) \<le> 1"
    using assms x by (auto split: option.splits sum.splits)
qed

text \<open>
  Claim C6, amended. Given that the entries present at a sampled frame decode to arrays
  of the frame's shape, the mask stored for that position has the frame's shape and its
  value at every pixel is the sum of the decoded masks of the task's annotation ids at that
  pixel (an id with \<open>null\<close> adds nothing). With binary decoded masks this is the number of
  annotations that cover the pixel, at most the number of annotation ids: 0 or 1 where at
  most one covers it, 2 or more where decoded masks overlap.
\<close>

theorem mask_pixel_sum:
  assumes a: "assemble D g idx = Inr ((imgs, tgt), g')"
    and m: "py_get (metas D) idx = Inr m"
    and j: "j < nat (num_frames D)"
    and sh: "\<forall>x \<in> set (meta_anno_id m). \<forall>pf e. mask_dict D x = Some pf \<longrightarrow>
              py_get pf (frames_idx tgt ! j) = Inr (Some e) \<longrightarrow>
              has_shape (im_h (imgs ! j)) (im_w (imgs ! j)) (coco_decode D e)"
  shows "has_shape (im_h (imgs ! j)) (im_w (imgs ! j)) (masks tgt ! j)
    \<and> (\<forall>r < im_h (imgs ! j). \<forall>c < im_w (imgs ! j).
          masks tgt ! j ! r ! c
            = coverage (coco_decode D) (mask_dict D) (frames_idx tgt ! j) (meta_anno_id m) r c
          \<and> ((\<forall>x \<in> set (meta_anno_id m). \<forall>pf e. mask_dict D x = Some pf \<longrightarrow>
                 py_get pf (frames_idx tgt ! j) = Inr (Some e) \<longrightarrow> coco_decode D e ! r ! c \<le> 1)
               \<longrightarrow> masks tgt ! j ! r ! c \<le> length (meta_anno_id m)))"
proof -
  let ?h = "im_h (imgs ! j)" and ?w = "im_w (imgs ! j)" and ?fi = "frames_idx tgt ! j"
  from assemble_frame [OF a j] m have
    l: "anno_loop (coco_decode D) (mask_dict D) ?fi (meta_anno_id m) (np_zeros ?h ?w)
          = Inr (masks tgt ! j)"
    and s: "has_shape ?h ?w (masks tgt ! j)"
    by auto
  have e: "masks tgt ! j ! r ! c
      = coverage (coco_decode D) (mask_dict D) ?fi (meta_anno_id m) r c"
    if "r < ?h" "c < ?w" for r c
    using anno_loop_sum [OF has_shape_zeros sh l that] that by (simp add: np_zeros_def)
  show ?thesis
    using s e coverage_le_length [of "meta_anno_id m" "mask_dict D" ?fi "coco_decode D"]
    by simp
qed

theorem mask_pixel_sum_witness:
  "assemble example_overlap_dataset (\<lambda>_. 0) 0
     = Inr ((example_images, example_overlap_target), \<lambda>_. 0)
   \<and> has_shape 2 3 (masks example_overlap_target ! 0)
   \<and> masks example_overlap_target ! 0 ! 0 ! 2
       = coverage (coco_decode example_overlap_dataset) (mask_dict example_overlap_dataset)
           2 [''1'', ''2''] 0 2
   \<and> masks example_overlap_target ! 0 ! 0 ! 2 = 2"
proof -
  let ?m = "\<lparr>meta_video = ''v1'', meta_exp = ''Two cats'', meta_obj_id = [1, 2],
       meta_anno_id = [''1'', ''2''], meta_frames = [''f0'', ''f1'', ''f2'', ''f3''],
       meta_frame_id = 2, meta_category = 0\<rparr>"
  have a: "assemble example_overlap_dataset (\<lambda>_. 0) 0
     = Inr ((example_images, example_overlap_target), \<lambda>_. 0)"
    by (rule assemble_example_overlap)
  have m: "py_get (metas example_overlap_dataset) 0 = Inr ?m"
    by (simp add: example_overlap_sel py_get_def)
  have j: "0 < nat (num_frames example_overlap_dataset)" by (simp add: example_overlap_sel)
  have i: "im_h (example_images ! 0) = 2" "im_w (example_images ! 0) = 3"
    "frames_idx example_overlap_target ! 0 = 2"
    by (simp_all add: example_images_def example_overlap_target_def)
  have sh: "\<forall>x \<in> set (meta_anno_id ?m). \<forall>pf e. mask_dict example_overlap_dataset x = Some pf \<longrightarrow>
              py_get pf (frames_idx example_overlap_target ! 0) = Inr (Some e) \<longrightarrow>
              has_shape (im_h (example_images ! 0)) (im_w (example_images ! 0))
                (coco_decode example_overlap_dataset e)"
    by (auto simp: i example_overlap_sel py_get_def has_shape_def)
  from mask_pixel_sum [OF a m j sh]
  have "has_shape 2 3 (masks example_overlap_target ! 0)
    \<and> masks example_overlap_target ! 0 ! 0 ! 2
       = coverage (coco_decode example_overlap_dataset) (mask_dict example_overlap_dataset)
           2 [''1'', ''2''] 0 2"
    by (simp add: i)
  moreover have "masks example_overlap_target ! 0 ! 0 ! 2 = 2"
    by (simp add: example_overlap_target_def)
  ultimately show ?thesis using a by blast
qed

end
